theory Spec2Isabelle
  imports Main "HOL-Library.Sublist"
begin

section \<open>Python values used by the substitution engine\<close>

text \<open>
  Exceptions are values. The first seven are the Python exceptions the modelled code can
  raise; the last four are the error kinds the specification declares. No statement of
  the source raises one of the declared kinds; they are listed so that the behaviour of
  the code can be compared with them.
\<close>

datatype error =
    IndexError
  | AttributeError
  | TypeError
  | ValueError
  | KeyError
  | ZeroDivisionError
  | RecursionError
  | NoAnswerInContext
  | InvalidParameter
  | NoValidCandidate
  | MissingMetadata

subsection \<open>Strings\<close>

text \<open>
  The examples of the model hold ASCII text: a Python \<open>str\<close> of ASCII characters is a
  \<^typ>\<open>string\<close>, one \<^typ>\<open>char\<close> per character, and on such text \<open>str.lower\<close> acts
  character by character on the letters \<open>A\<close> to \<open>Z\<close> and leaves every other character as
  it is. On other text \<open>str.lower\<close> does more: it lower-cases letters outside ASCII, it
  can change the number of characters and it can depend on the neighbours of a
  character. The span finder below is therefore also given for text over any type of
  characters, with the lower-casing as a parameter.
\<close>

definition lower_char :: "char \<Rightarrow> char" where
  "lower_char c =
     (case map_of (zip ''ABCDEFGHIJKLMNOPQRSTUVWXYZ'' ''abcdefghijklmnopqrstuvwxyz'') c of
        Some d \<Rightarrow> d
      | None \<Rightarrow> c)"

definition py_lower :: "string \<Rightarrow> string" where
  "py_lower s = map lower_char s"

text \<open>The slice \<open>s[i:j]\<close> for offsets \<open>0 \<le> i\<close>, \<open>0 \<le> j\<close>.\<close>

definition slice :: "'a list \<Rightarrow> nat \<Rightarrow> nat \<Rightarrow> 'a list" where
  "slice s i j = take (j - i) (drop i s)"

text \<open>
  \<open>re.finditer(re.escape(pat), s)\<close>: the pattern is a literal. The scan starts at offset
  \<open>pos\<close> of the searched string, whose remaining part is \<open>s\<close>; a match at the current
  offset is reported and the scan resumes at its end (one character further after an
  empty match); without a match the scan moves one character on. An empty pattern
  matches at every offset, the end of the string included.
\<close>

function finditer_from :: "'a list \<Rightarrow> nat \<Rightarrow> 'a list \<Rightarrow> (nat \<times> nat) list" where
  "finditer_from pat pos s =
     (if prefix pat s then
        (if pat = [] then
           (pos, pos) # (case s of [] \<Rightarrow> [] | c # cs \<Rightarrow> finditer_from pat (Suc pos) cs)
         else
           (pos, pos + length pat) #
             finditer_from pat (pos + length pat) (drop (length pat) s))
      else
        (case s of [] \<Rightarrow> [] | c # cs \<Rightarrow> finditer_from pat (Suc pos) cs))"
  by pat_completeness auto
termination
  by (relation "measure (\<lambda>(pat, pos, s). length s)") (auto simp: prefix_def)

declare finditer_from.simps [simp del]

definition finditer :: "'a list \<Rightarrow> 'a list \<Rightarrow> (nat \<times> nat) list" where
  "finditer pat s = finditer_from pat 0 s"

text \<open>
  \<open>s.replace(old, new)\<close>: every non-overlapping occurrence of \<open>old\<close>, found from the left,
  is replaced; an empty \<open>old\<close> inserts \<open>new\<close> before every character and at the end.
\<close>

function replace_nonempty :: "string \<Rightarrow> string \<Rightarrow> string \<Rightarrow> string" where
  "replace_nonempty old new s =
     (case s of
        [] \<Rightarrow> []
      | c # cs \<Rightarrow>
          (if old \<noteq> [] \<and> prefix old s then new @ replace_nonempty old new (drop (length old) s)
           else c # replace_nonempty old new cs))"
  by pat_completeness auto
termination
  by (relation "measure (\<lambda>(old, new, s). length s)") (auto simp: prefix_def)

declare replace_nonempty.simps [simp del]

definition py_replace :: "string \<Rightarrow> string \<Rightarrow> string \<Rightarrow> string" where
  "py_replace s old new =
     (if old = [] then new @ concat (map (\<lambda>c. c # new) s)
      else replace_nonempty old new s)"

section \<open>Answer\<close>

text \<open>
  The class \<open>Answer\<close> of \<open>src/classes/answer.py\<close>. A field that may hold \<open>None\<close> is an
  option. The field \<open>text\<close> is named \<open>text'\<close> here.
\<close>

record answer =
  text' :: string
  spans :: "(nat \<times> nat) list option"
  ner_label :: "string option"
  kb_id :: "string option"
  wikidata_label :: "string option"
  aliases :: "string list option"
  wikidata_types :: "string list option"
  wikipedia_page :: "string option"
  popularity :: "int option"
  answer_type :: "string option"

text \<open>\<open>Answer.is_answer_in_context\<close>: the truth value of \<open>self.spans\<close>.\<close>

definition is_answer_in_context :: "answer \<Rightarrow> bool" where
  "is_answer_in_context a = (case spans a of None \<Rightarrow> False | Some sp \<Rightarrow> sp \<noteq> [])"

text \<open>
  \<open>Answer._select_answer_type\<close>. The test \<open>"year" in self.wikidata_types\<close> is reached
  only when the label is \<open>CARDINAL\<close>, and raises \<open>TypeError\<close> when the types are \<open>None\<close>.
\<close>

definition select_answer_type :: "answer \<Rightarrow> error + string option" where
  "select_answer_type a =
     (if ner_label a = Some ''PERSON'' then Inr (Some ''PERSON'')
      else if ner_label a = Some ''DATE'' then Inr (Some ''DATE'')
      else if ner_label a = Some ''CARDINAL'' then
        (case wikidata_types a of
           None \<Rightarrow> Inl TypeError
         | Some ts \<Rightarrow>
             (if ''year'' \<in> set ts then Inr (Some ''DATE'') else Inr (Some ''NUMERIC'')))
      else if ner_label a \<in> set [Some ''CARDINAL'', Some ''QUANTITY''] then Inr (Some ''NUMERIC'')
      else if ner_label a \<in> set [Some ''GPE'', Some ''LOC''] then Inr (Some ''LOCATION'')
      else if ner_label a = Some ''ORG'' then Inr (Some ''ORGANIZATION'')
      else Inr None)"

text \<open>
  The classification rules as the specification words them (section 4.1), first match
  wins; compared below with \<^const>\<open>select_answer_type\<close>.
\<close>

definition classify_spec :: "string option \<Rightarrow> string list \<Rightarrow> string option" where
  "classify_spec l ts =
     (if l = Some ''PERSON'' then Some ''PERSON''
      else if l = Some ''DATE'' \<or> (l = Some ''CARDINAL'' \<and> ''year'' \<in> set ts) then Some ''DATE''
      else if l = Some ''CARDINAL'' \<or> l = Some ''QUANTITY'' then Some ''NUMERIC''
      else if l = Some ''GPE'' \<or> l = Some ''LOC'' then Some ''LOCATION''
      else if l = Some ''ORG'' then Some ''ORGANIZATION''
      else None)"

section \<open>Locating an answer in a passage\<close>

text \<open>
  \<open>QAExample._find_answer_in_context\<close>, with \<open>str.lower\<close> as the parameter \<open>lower\<close>: the
  escaped, lower-cased answer text is searched in the lower-cased context, and the
  offsets of the matches in the lower-cased context are returned.
\<close>

definition find_answer_in_context_by ::
  "('c list \<Rightarrow> 'c list) \<Rightarrow> 'c list \<Rightarrow> 'c list \<Rightarrow> (nat \<times> nat) list" where
  "find_answer_in_context_by lower answer_text ctx = finditer (lower answer_text) (lower ctx)"

text \<open>The span finder on the ASCII text of the examples.\<close>

definition find_answer_in_context :: "string \<Rightarrow> string \<Rightarrow> (nat \<times> nat) list" where
  "find_answer_in_context answer_text ctx = find_answer_in_context_by py_lower answer_text ctx"

text \<open>
  An occurrence of the needle at offset \<open>p\<close> of the haystack, up to the character map
  \<open>f\<close>: the slice of the needle's length at \<open>p\<close> lies inside the haystack and has the
  same image under \<open>f\<close> as the needle.
\<close>

definition occurs_at_by :: "('c \<Rightarrow> 'c) \<Rightarrow> 'c list \<Rightarrow> 'c list \<Rightarrow> nat \<Rightarrow> bool" where
  "occurs_at_by f needle hay p \<longleftrightarrow>
     p + length needle \<le> length hay \<and>
     map f (slice hay p (p + length needle)) = map f needle"




subsection \<open>Text outside ASCII\<close>





section \<open>Objects and the store\<close>

text \<open>
  The class \<open>QAExample\<close> of \<open>src/classes/qaexample.py\<close>. Examples and answers are
  objects: they live in a store and are named by references, so that a copy and its
  original are different objects and an assignment to a field changes one object only.
  The list \<open>gold_answers\<close> holds references to \<open>Answer\<close> objects and \<open>original_example\<close>
  a reference to a \<open>QAExample\<close> object, or \<open>None\<close>. The field \<open>context\<close> is named
  \<open>context'\<close> here.
\<close>

type_synonym ref = nat

record qaexample =
  uid :: string
  query :: string
  context' :: string
  gold_answers :: "ref list"
  is_substitute :: bool
  metadata :: "(string \<times> string) list option"
  original_example :: "ref option"

text \<open>
  The store: the example objects and the answer objects by reference, the next unused
  reference of each kind (every smaller reference is an object that exists), and the
  number of nested example copies that the interpreter's recursion limit allows
  \<open>copy.deepcopy\<close> to make.
\<close>

record heap =
  examples :: "ref \<Rightarrow> qaexample"
  next_example :: ref
  answers :: "ref \<Rightarrow> answer"
  next_answer :: ref
  recursion_limit :: nat

definition set_example :: "heap \<Rightarrow> ref \<Rightarrow> qaexample \<Rightarrow> heap" where
  "set_example h p e = h\<lparr>examples := (examples h)(p := e)\<rparr>"

definition new_answer :: "heap \<Rightarrow> answer \<Rightarrow> ref \<times> heap" where
  "new_answer h a =
     (next_answer h, h\<lparr>answers := (answers h)(next_answer h := a),
                       next_answer := Suc (next_answer h)\<rparr>)"

text \<open>The \<open>Answer\<close> objects of an example's \<open>gold_answers\<close>, in order.\<close>

definition gold_answer_objs :: "heap \<Rightarrow> ref \<Rightarrow> answer list" where
  "gold_answer_objs h ex = map (answers h) (gold_answers (examples h ex))"

subsection \<open>\<open>copy.deepcopy\<close>\<close>

text \<open>
  \<open>copy.deepcopy\<close> of a list of \<open>Answer\<close> objects. The memo maps an object already copied
  to its copy; strings, numbers and the lists of them inside an answer are values.
\<close>

fun deepcopy_answers ::
  "(ref \<times> ref) list \<Rightarrow> heap \<Rightarrow> ref list \<Rightarrow> ref list \<times> (ref \<times> ref) list \<times> heap" where
  "deepcopy_answers memo h [] = ([], memo, h)"
| "deepcopy_answers memo h (a # as) =
     (case map_of memo a of
        Some a' \<Rightarrow>
          (case deepcopy_answers memo h as of (bs, memo', h') \<Rightarrow> (a' # bs, memo', h'))
      | None \<Rightarrow>
          (case new_answer h (answers h a) of
             (a', h1) \<Rightarrow>
               (case deepcopy_answers ((a, a') # memo) h1 as of
                  (bs, memo', h') \<Rightarrow> (a' # bs, memo', h'))))"

text \<open>
  \<open>copy.deepcopy\<close> of a \<open>QAExample\<close>: a new object is made and entered in the memo, the
  fields are copied in turn (the gold answers, then the example that \<open>original_example\<close>
  refers to, if any), and the new object receives them. The first argument bounds the
  nesting of example copies; at the bound Python raises \<open>RecursionError\<close>.
\<close>

fun deepcopy_example ::
  "nat \<Rightarrow> (ref \<times> ref) list \<Rightarrow> (ref \<times> ref) list \<Rightarrow> heap \<Rightarrow> ref \<Rightarrow>
     (error + ref) \<times> (ref \<times> ref) list \<times> (ref \<times> ref) list \<times> heap" where
  "deepcopy_example 0 memo_ex memo_ans h p = (Inl RecursionError, memo_ex, memo_ans, h)"
| "deepcopy_example (Suc n) memo_ex memo_ans h p =
     (case map_of memo_ex p of
        Some q \<Rightarrow> (Inr q, memo_ex, memo_ans, h)
      | None \<Rightarrow>
          (let q = next_example h;
               e = examples h p;
               h1 = h\<lparr>next_example := Suc q\<rparr>
           in case deepcopy_answers memo_ans h1 (gold_answers e) of
             (as', memo_ans1, h2) \<Rightarrow>
               (case original_example e of
                  None \<Rightarrow>
                    (Inr q, (p, q) # memo_ex, memo_ans1,
                     set_example h2 q (e\<lparr>gold_answers := as'\<rparr>))
                | Some orig \<Rightarrow>
                    (case deepcopy_example n ((p, q) # memo_ex) memo_ans1 h2 orig of
                       (Inl err, memo_ex', memo_ans', h3) \<Rightarrow> (Inl err, memo_ex', memo_ans', h3)
                     | (Inr orig', memo_ex', memo_ans', h3) \<Rightarrow>
                         (Inr q, memo_ex', memo_ans',
                          set_example h3 q
                            (e\<lparr>gold_answers := as', original_example := Some orig'\<rparr>))))))"

definition deepcopy :: "heap \<Rightarrow> ref \<Rightarrow> (error + ref) \<times> heap" where
  "deepcopy h p =
     (case deepcopy_example (recursion_limit h) [] [] h p of
        (r, memo_ex, memo_ans, h') \<Rightarrow> (r, h'))"

section \<open>Substitution on an example\<close>

text \<open>
  \<open>QAExample.update_context_with_substitution\<close>. The local \<open>replace_answers\<close> is
  computed first; indexing the empty list of the answers found in the context raises
  \<open>IndexError\<close>. The loop then runs over \<open>self.gold_answers\<close>. The distinct matched
  substrings are a Python set, whose iteration order is not fixed; the model iterates
  in the order of first appearance.
\<close>

definition replace_answers_of :: "answer list \<Rightarrow> bool \<Rightarrow> error + answer list" where
  "replace_answers_of golds replace_every_original_answer =
     (if replace_every_original_answer then Inr golds
      else (case filter is_answer_in_context golds of
              [] \<Rightarrow> Inl IndexError
            | a # _ \<Rightarrow> Inr [a]))"

definition update_context_with_substitution :: "heap \<Rightarrow> ref \<Rightarrow> ref \<Rightarrow> bool \<Rightarrow> error + heap" where
  "update_context_with_substitution h self sub_answer replace_every_original_answer =
     (let e = examples h self in
      case replace_answers_of (gold_answer_objs h self) replace_every_original_answer of
        Inl err \<Rightarrow> Inl err
      | Inr replace_answers \<Rightarrow>
          (let replace_spans =
                 concat (map (\<lambda>orig_answer. find_answer_in_context (text' orig_answer) (context' e))
                           (gold_answer_objs h self));
               replace_strs = remdups (map (\<lambda>span. slice (context' e) (fst span) (snd span))
                                         replace_spans);
               new_context = fold (\<lambda>replace_str c. py_replace c replace_str
                                                       (text' (answers h sub_answer)))
                               replace_strs (context' e)
           in Inr (set_example h self (e\<lparr>context' := new_context\<rparr>))))"

text \<open>
  \<open>QAExample.apply_substitution\<close>. The uid is assigned before the context is updated,
  so it stays changed when the update raises. The local \<open>spans\<close> is computed and not
  used afterwards.
\<close>

definition apply_substitution ::
  "heap \<Rightarrow> ref \<Rightarrow> ref \<Rightarrow> ref \<Rightarrow> string \<Rightarrow> bool \<Rightarrow> (error + unit) \<times> heap" where
  "apply_substitution h self sub_answer original sub_type replace_every_original_answer =
     (let h1 = set_example h self
                 ((examples h self)\<lparr>uid := sub_type @ ''_'' @ uid (examples h self)\<rparr>)
      in case update_context_with_substitution h1 self sub_answer
                replace_every_original_answer of
           Inl err \<Rightarrow> (Inl err, h1)
         | Inr h2 \<Rightarrow>
             (let spans = find_answer_in_context (text' (answers h2 sub_answer))
                            (context' (examples h2 self));
                  h3 = set_example h2 self
                         ((examples h2 self)\<lparr>gold_answers := [sub_answer],
                                              is_substitute := True,
                                              original_example := Some original\<rparr>)
              in (Inr (), h3)))"

text \<open>\<open>QAExample.get_answers_in_context\<close>.\<close>

definition get_answers_in_context :: "heap \<Rightarrow> ref \<Rightarrow> ref list" where
  "get_answers_in_context h self =
     filter (\<lambda>ga. is_answer_in_context (answers h ga)) (gold_answers (examples h self))"

subsection \<open>The majority answer type\<close>

text \<open>
  \<open>collections.Counter\<close> over a list: the counts by key, keys in the order of first
  appearance. \<open>most_common(1)\<close> is \<open>heapq.nlargest(1, ...)\<close>, that is \<open>max\<close> on the
  counts, which keeps the first of several maximal entries.
\<close>

fun counter_add :: "'a \<Rightarrow> ('a \<times> nat) list \<Rightarrow> ('a \<times> nat) list" where
  "counter_add x [] = [(x, 1)]"
| "counter_add x ((k, c) # kcs) =
     (if k = x then (k, Suc c) # kcs else (k, c) # counter_add x kcs)"

definition Counter :: "'a list \<Rightarrow> ('a \<times> nat) list" where
  "Counter xs = fold counter_add xs []"

fun max_by_count :: "('a \<times> nat) \<Rightarrow> ('a \<times> nat) list \<Rightarrow> ('a \<times> nat)" where
  "max_by_count best [] = best"
| "max_by_count best (x # xs) = max_by_count (if snd best < snd x then x else best) xs"

definition most_common_1 :: "('a \<times> nat) list \<Rightarrow> ('a \<times> nat) list" where
  "most_common_1 kcs = (case kcs of [] \<Rightarrow> [] | x # xs \<Rightarrow> [max_by_count x xs])"

text \<open>
  The answer types that the comprehension of \<open>get_example_answer_type\<close> keeps: those
  that are true in Python, neither \<open>None\<close> nor the empty string.
\<close>

definition truthy_answer_types :: "answer list \<Rightarrow> string list" where
  "truthy_answer_types golds =
     concat (map (\<lambda>a. case answer_type a of
                         None \<Rightarrow> []
                       | Some t \<Rightarrow> (if t = [] then [] else [t])) golds)"

definition get_example_answer_type :: "heap \<Rightarrow> ref \<Rightarrow> string option" where
  "get_example_answer_type h self =
     (let answer_type_counts = Counter (truthy_answer_types (gold_answer_objs h self));
          most_common_types = most_common_1 answer_type_counts
      in case most_common_types of
           [] \<Rightarrow> None
         | x # _ \<Rightarrow> Some (fst x))"

section \<open>Substitution helper functions\<close>

text \<open>\<open>create_new_example\<close> of \<open>src/substitution_fns.py\<close>.\<close>

definition create_new_example ::
  "heap \<Rightarrow> ref \<Rightarrow> string \<Rightarrow> string \<Rightarrow> string option \<Rightarrow> string option \<Rightarrow> string option \<Rightarrow>
   string list option \<Rightarrow> string list option \<Rightarrow> string option \<Rightarrow> int option \<Rightarrow>
   string option \<Rightarrow> bool \<Rightarrow> (error + ref) \<times> heap" where
  "create_new_example h ex new_id answer_text ner_label_arg kb_id_arg wikidata_label_arg
      aliases_arg wikidata_types_arg wikipedia_page_arg popularity_arg answer_type_arg
      replace_every_original_answer =
     (case deepcopy h ex of
        (Inl err, h1) \<Rightarrow> (Inl err, h1)
      | (Inr sub_ex, h1) \<Rightarrow>
          (case new_answer h1
                  \<lparr>text' = answer_text, spans = None, ner_label = ner_label_arg,
                   kb_id = kb_id_arg, wikidata_label = wikidata_label_arg,
                   aliases = aliases_arg, wikidata_types = wikidata_types_arg,
                   wikipedia_page = wikipedia_page_arg, popularity = popularity_arg,
                   answer_type = answer_type_arg\<rparr> of
             (sub_answer, h2) \<Rightarrow>
               (case apply_substitution h2 sub_ex sub_answer ex new_id
                        replace_every_original_answer of
                  (Inl err, h3) \<Rightarrow> (Inl err, h3)
                | (Inr u, h3) \<Rightarrow> (Inr sub_ex, h3))))"

section \<open>Alias substitution\<close>

text \<open>Decimal digits of a natural number, for \<open>f"alias-sub-{idx}"\<close>.\<close>

fun str_nat :: "nat \<Rightarrow> string" where
  "str_nat n =
     (if n < 10 then [''0123456789'' ! n]
      else str_nat (n div 10) @ [''0123456789'' ! (n mod 10)])"

declare str_nat.simps [simp del]

text \<open>
  A Python \<open>dict\<close> is an association list in insertion order; assigning to a key that is
  present replaces its value in place.
\<close>

fun dict_set :: "'k \<Rightarrow> 'v \<Rightarrow> ('k \<times> 'v) list \<Rightarrow> ('k \<times> 'v) list" where
  "dict_set k v [] = [(k, v)]"
| "dict_set k v ((k', v') # d) =
     (if k' = k then (k, v) # d else (k', v') # dict_set k v d)"

text \<open>The slice \<open>xs[:m]\<close>; a negative \<open>m\<close> counts from the end.\<close>

definition py_take :: "int \<Rightarrow> 'a list \<Rightarrow> 'a list" where
  "py_take m xs = (if 0 \<le> m then take (nat m) xs else take (length xs - nat (- m)) xs)"

text \<open>
  The inner function \<open>sub_fn\<close> of \<open>alias_substitution_fn\<close>. \<open>alias_to_info\<close> maps an
  alias to the gold answer it comes from, a later gold answer replacing an earlier one.
  \<open>valid_aliases\<close> is the list of a Python set difference, whose order is not fixed;
  the model lists the aliases in the order of their first insertion, each with its
  gold answer.
\<close>

definition alias_to_info :: "heap \<Rightarrow> ref \<Rightarrow> (string \<times> ref) list" where
  "alias_to_info h ex =
     fold (\<lambda>ga d. case aliases (answers h ga) of
                     None \<Rightarrow> d
                   | Some als \<Rightarrow> fold (\<lambda>alias d'. dict_set alias ga d') als d)
       (gold_answers (examples h ex)) []"

definition valid_aliases :: "heap \<Rightarrow> ref \<Rightarrow> (string \<times> ref) list" where
  "valid_aliases h ex =
     filter (\<lambda>(alias, ga). alias \<notin> set (map text' (gold_answer_objs h ex)))
       (alias_to_info h ex)"

fun alias_sub_exs ::
  "heap \<Rightarrow> ref \<Rightarrow> bool \<Rightarrow> nat \<Rightarrow> (string \<times> ref) list \<Rightarrow> (error + ref list) \<times> heap" where
  "alias_sub_exs h ex replace_every idx [] = (Inr [], h)"
| "alias_sub_exs h ex replace_every idx ((alias, ga) # rest) =
     (case create_new_example h ex (''alias-sub-'' @ str_nat idx) alias
              (ner_label (answers h ga)) (kb_id (answers h ga))
              (wikidata_label (answers h ga)) (Some [text' (answers h ga)])
              (wikidata_types (answers h ga)) (wikipedia_page (answers h ga))
              (popularity (answers h ga)) (answer_type (answers h ga)) replace_every of
        (Inl err, h1) \<Rightarrow> (Inl err, h1)
      | (Inr sub_ex, h1) \<Rightarrow>
          (case alias_sub_exs h1 ex replace_every (Suc idx) rest of
             (Inl err, h2) \<Rightarrow> (Inl err, h2)
           | (Inr sub_exs, h2) \<Rightarrow> (Inr (sub_ex # sub_exs), h2)))"

definition alias_sub_fn :: "heap \<Rightarrow> ref \<Rightarrow> bool \<Rightarrow> (error + ref list) \<times> heap" where
  "alias_sub_fn h ex replace_every = alias_sub_exs h ex replace_every 0 (valid_aliases h ex)"

text \<open>
  The test that guards \<open>sub_fn\<close> in the loop of \<open>alias_substitution_fn\<close>, with Python's
  short-circuit evaluation: \<open>ex_answer_type.lower()\<close> is evaluated only when the first
  two disjuncts are false, and raises \<open>AttributeError\<close> on \<open>None\<close>. The second disjunct
  tests \<open>category\<close> against the list \<open>[None, "DATE", "NUMERIC"]\<close>.
\<close>

definition alias_category_matches :: "string \<Rightarrow> string option \<Rightarrow> error + bool" where
  "alias_category_matches category ex_answer_type =
     (if py_lower category = ''all'' then Inr True
      else if py_lower category = ''nonnumeric''
              \<and> Some category \<notin> set [None, Some ''DATE'', Some ''NUMERIC''] then Inr True
      else (case ex_answer_type of
              None \<Rightarrow> Inl AttributeError
            | Some t \<Rightarrow> Inr (py_lower category = py_lower t)))"

text \<open>
  \<open>alias_substitution_fn\<close>: the loop over \<open>dset.examples\<close>. The result is the list of
  the derived examples; the counts kept for the printed report are left out.
\<close>

fun alias_substitution_loop ::
  "heap \<Rightarrow> bool \<Rightarrow> int \<Rightarrow> string \<Rightarrow> ref list \<Rightarrow> (error + ref list) \<times> heap" where
  "alias_substitution_loop h replace_every max_aliases category [] = (Inr [], h)"
| "alias_substitution_loop h replace_every max_aliases category (ex # exs) =
     (case alias_category_matches category (get_example_answer_type h ex) of
        Inl err \<Rightarrow> (Inl err, h)
      | Inr False \<Rightarrow> alias_substitution_loop h replace_every max_aliases category exs
      | Inr True \<Rightarrow>
          (case alias_sub_fn h ex replace_every of
             (Inl err, h1) \<Rightarrow> (Inl err, h1)
           | (Inr alias_exs, h1) \<Rightarrow>
               (case alias_substitution_loop h1 replace_every max_aliases category exs of
                  (Inl err, h2) \<Rightarrow> (Inl err, h2)
                | (Inr new_exs, h2) \<Rightarrow>
                    (Inr ((if max_aliases \<noteq> 0 then py_take max_aliases alias_exs
                           else alias_exs) @ new_exs), h2))))"

definition alias_substitution_fn ::
  "heap \<Rightarrow> ref list \<Rightarrow> bool \<Rightarrow> int \<Rightarrow> string \<Rightarrow> (error + ref list) \<times> heap" where
  "alias_substitution_fn h dset_examples replace_every max_aliases category =
     alias_substitution_loop h replace_every max_aliases category dset_examples"

section \<open>Sampling a substitute that differs from the gold answers\<close>

subsection \<open>\<open>normalize_text\<close> of \<open>src/utils.py\<close>\<close>

text \<open>
  \<open>normalize_text\<close> is given for ASCII text: the word characters of \<open>\b\<close>, the white
  space of \<open>str.split\<close> and the letters of \<open>str.lower\<close> are the ASCII ones, where Python
  also knows those of the rest of Unicode. The statements about the sampling loop below
  hold for any normalization and do not unfold this definition.
\<close>

text \<open>The characters of \<open>string.punctuation\<close>, by code.\<close>

definition is_punctuation :: "char \<Rightarrow> bool" where
  "is_punctuation c =
     (let n = (of_char c :: nat)
      in (33 \<le> n \<and> n \<le> 47) \<or> (58 \<le> n \<and> n \<le> 64) \<or> (91 \<le> n \<and> n \<le> 96)
         \<or> (123 \<le> n \<and> n \<le> 126))"

definition remove_punc :: "string \<Rightarrow> string" where
  "remove_punc s = filter (\<lambda>ch. \<not> is_punctuation ch) s"

text \<open>A word character of the regular expression \<open>\b\<close>: a letter, a digit or \<open>_\<close>.\<close>

definition is_word_char :: "char \<Rightarrow> bool" where
  "is_word_char c =
     (let n = (of_char c :: nat)
      in (48 \<le> n \<and> n \<le> 57) \<or> (65 \<le> n \<and> n \<le> 90) \<or> n = 95 \<or> (97 \<le> n \<and> n \<le> 122))"

text \<open>
  The pattern \<open>\b(a|an|the)\b\<close> at the start of \<open>s\<close>, where \<open>prev\<close> tells whether the
  character before is a word character: the length of the match, if any. The
  alternatives are tried in order.
\<close>

definition boundary_after :: "string \<Rightarrow> nat \<Rightarrow> bool" where
  "boundary_after s n = (case drop n s of [] \<Rightarrow> True | c # cs \<Rightarrow> \<not> is_word_char c)"

definition article_at :: "bool \<Rightarrow> string \<Rightarrow> nat option" where
  "article_at prev s =
     (if prev then None
      else if prefix ''a'' s \<and> boundary_after s 1 then Some 1
      else if prefix ''an'' s \<and> boundary_after s 2 then Some 2
      else if prefix ''the'' s \<and> boundary_after s 3 then Some 3
      else None)"

text \<open>
  \<open>re.sub\<close> of the pattern by a space: \<open>skip\<close> counts the characters of a match still to
  be consumed.
\<close>

fun remove_articles_scan :: "bool \<Rightarrow> nat \<Rightarrow> string \<Rightarrow> string" where
  "remove_articles_scan prev skip [] = []"
| "remove_articles_scan prev (Suc k) (c # cs) = remove_articles_scan True k cs"
| "remove_articles_scan prev 0 (c # cs) =
     (case article_at prev (c # cs) of
        Some n \<Rightarrow> CHR '' '' # remove_articles_scan True (n - 1) cs
      | None \<Rightarrow> c # remove_articles_scan (is_word_char c) 0 cs)"

definition remove_articles :: "string \<Rightarrow> string" where
  "remove_articles s = remove_articles_scan False 0 s"

text \<open>\<open>" ".join(text.split())\<close>: the words between runs of white space, joined by one space.\<close>

definition is_space :: "char \<Rightarrow> bool" where
  "is_space c = (let n = (of_char c :: nat) in (9 \<le> n \<and> n \<le> 13) \<or> (28 \<le> n \<and> n \<le> 32))"

fun split_ws :: "string \<Rightarrow> string \<Rightarrow> string list" where
  "split_ws word [] = (if word = [] then [] else [word])"
| "split_ws word (c # cs) =
     (if is_space c then (if word = [] then [] else [word]) @ split_ws [] cs
      else split_ws (word @ [c]) cs)"

fun join_sp :: "string list \<Rightarrow> string" where
  "join_sp [] = []"
| "join_sp [w] = w"
| "join_sp (w # ws) = w @ '' '' @ join_sp ws"

definition white_space_fix :: "string \<Rightarrow> string" where
  "white_space_fix s = join_sp (split_ws [] s)"

definition normalize_text :: "string \<Rightarrow> string" where
  "normalize_text s = white_space_fix (remove_articles (remove_punc (py_lower s)))"

subsection \<open>\<open>select_random_non_identical_answer\<close>\<close>

text \<open>
  \<open>random.choice\<close> on the value \<open>r\<close> drawn from the generator: \<open>IndexError\<close> on an empty
  sequence.
\<close>

definition random_choice :: "nat \<Rightarrow> 'a list \<Rightarrow> error + 'a" where
  "random_choice r xs = (if xs = [] then Inl IndexError else Inr (xs ! (r mod length xs)))"

text \<open>
  The loop condition \<open>not sub_key or normalize_text(sub_key) in norm_gold_answers\<close>:
  \<open>None\<close> and the empty string are false in Python.
\<close>

definition must_redraw :: "string list \<Rightarrow> string option \<Rightarrow> bool" where
  "must_redraw norm_gold_answers sub_key =
     (case sub_key of
        None \<Rightarrow> True
      | Some k \<Rightarrow> k = [] \<or> normalize_text k \<in> set norm_gold_answers)"

text \<open>
  The \<open>while\<close> loop. The generator is the sequence \<open>rng\<close> of the values it returns, \<open>i\<close>
  the number of values drawn so far. The loop has no bound, so a run that does not
  leave it has the value \<open>None\<close>.
\<close>

partial_function (option) resample ::
  "(nat \<Rightarrow> nat) \<Rightarrow> nat \<Rightarrow> string list \<Rightarrow> string list \<Rightarrow> string option \<Rightarrow>
     (error + string option) option" where
  "resample rng i norm_gold_answers sample_keys sub_key =
     (if must_redraw norm_gold_answers sub_key then
        (case random_choice (rng i) sample_keys of
           Inl err \<Rightarrow> Some (Inl err)
         | Inr k \<Rightarrow> resample rng (Suc i) norm_gold_answers sample_keys (Some k))
      else Some (Inr sub_key))"

text \<open>
  \<open>select_random_non_identical_answer\<close>: \<open>sample_set\<close> is a dictionary from answer text
  to \<open>Answer\<close> object. The final lookup \<open>sample_set[sub_key]\<close> is of a key drawn from the
  dictionary's own keys.
\<close>

definition select_random_non_identical_answer ::
  "(nat \<Rightarrow> nat) \<Rightarrow> heap \<Rightarrow> ref \<Rightarrow> (string \<times> ref) list \<Rightarrow> (error + ref) option" where
  "select_random_non_identical_answer rng h ex sample_set =
     (let norm_gold_answers = map (\<lambda>ga. normalize_text (text' ga)) (gold_answer_objs h ex);
          sample_keys = map fst sample_set
      in case resample rng 0 norm_gold_answers sample_keys None of
           None \<Rightarrow> None
         | Some (Inl err) \<Rightarrow> Some (Inl err)
         | Some (Inr sub_key) \<Rightarrow>
             (case map_of sample_set (case sub_key of None \<Rightarrow> [] | Some k \<Rightarrow> k) of
                None \<Rightarrow> Some (Inl KeyError)
              | Some a \<Rightarrow> Some (Inr a)))"

section \<open>Popularity binning\<close>

text \<open>
  An entry of the Wikidata information file: the dictionary with the keys \<open>label\<close>,
  \<open>aliases\<close>, \<open>entity_types\<close>, \<open>wikipedia_page\<close> and \<open>popularity\<close>.
\<close>

record wikidata_entity =
  entity_label :: string
  entity_aliases :: "string list"
  entity_types :: "string list"
  entity_wikipedia_page :: string
  entity_popularity :: int

text \<open>
  The loop that keeps the first \<open>max_ents_per_pop\<close> entities of each popularity value;
  \<open>num_ents_per_pop\<close> is a \<open>defaultdict(int)\<close>.
\<close>

fun cap_per_pop ::
  "int \<Rightarrow> (int \<Rightarrow> int) \<Rightarrow> (string \<times> wikidata_entity) list \<Rightarrow> (string \<times> wikidata_entity) list" where
  "cap_per_pop max_ents_per_pop num_ents_per_pop [] = []"
| "cap_per_pop max_ents_per_pop num_ents_per_pop ((kb, info) # rest) =
     (let pop = entity_popularity info
      in (if max_ents_per_pop \<le> num_ents_per_pop pop then [] else [(kb, info)])
         @ cap_per_pop max_ents_per_pop
             (num_ents_per_pop(pop := num_ents_per_pop pop + 1)) rest)"

text \<open>The slices \<open>xs[i : i + n]\<close> for \<open>i\<close> in \<open>range(0, len(xs), n)\<close>, \<open>n\<close> positive.\<close>

function chunks :: "nat \<Rightarrow> 'a list \<Rightarrow> 'a list list" where
  "chunks n xs = (if n = 0 \<or> xs = [] then [] else take n xs # chunks n (drop n xs))"
  by pat_completeness auto
termination
  by (relation "measure (\<lambda>(n, xs). length xs)") auto

declare chunks.simps [simp del]

text \<open>
  \<open>bin_wikidata_entities_by_popularity\<close>, on the dictionary read from the file. The
  sort is stable. Division by a zero \<open>num_bins\<close> raises \<open>ZeroDivisionError\<close>; a zero
  step of \<open>range\<close> raises \<open>ValueError\<close>, and a negative step gives the empty range.
\<close>

definition surviving_entities ::
  "(string \<times> wikidata_entity) list \<Rightarrow> int \<Rightarrow> (string \<times> wikidata_entity) list" where
  "surviving_entities wikidata_info max_ents_per_pop =
     cap_per_pop max_ents_per_pop (\<lambda>pop. 0)
       (filter (\<lambda>(kb, info). ''Q5'' \<in> set (entity_types info)) wikidata_info)"

definition bin_wikidata_entities_by_popularity ::
  "(string \<times> wikidata_entity) list \<Rightarrow> int \<Rightarrow> int \<Rightarrow>
     error + (string \<times> wikidata_entity) list list" where
  "bin_wikidata_entities_by_popularity wikidata_info num_bins max_ents_per_pop =
     (let kb_ids = sort_key (\<lambda>(kb, info). entity_popularity info)
                     (surviving_entities wikidata_info max_ents_per_pop)
      in if num_bins = 0 then Inl ZeroDivisionError
         else (let bin_size = int (length kb_ids) div num_bins + 1
               in if bin_size = 0 then Inl ValueError
                  else if bin_size < 0 then Inr []
                  else Inr (chunks (nat bin_size) kb_ids)))"

section \<open>Sample stores\<close>

text \<open>Objects at the references that are not in use.\<close>

definition no_answer :: answer where
  "no_answer = \<lparr>text' = [], spans = None, ner_label = None, kb_id = None,
      wikidata_label = None, aliases = None, wikidata_types = None,
      wikipedia_page = None, popularity = None, answer_type = None\<rparr>"

definition no_example :: qaexample where
  "no_example = \<lparr>uid = [], query = [], context' = [], gold_answers = [],
      is_substitute = False, metadata = None, original_example = None\<rparr>"

text \<open>
  An example with two gold answers, both found in its passage, as \<open>QAExample.new\<close>
  makes it.
\<close>

definition cities_heap :: heap where
  "cities_heap =
     \<lparr>examples = (\<lambda>r. no_example)
        (0 := \<lparr>uid = ''q7'', query = ''Which capitals are named?'',
               context' = ''Paris and London'', gold_answers = [0, 1],
               is_substitute = False, metadata = Some [], original_example = None\<rparr>),
      next_example = 1,
      answers = (\<lambda>r. no_answer)
        (0 := no_answer\<lparr>text' := ''Paris'', spans := Some [(0, 5)]\<rparr>,
         1 := no_answer\<lparr>text' := ''London'', spans := Some [(10, 16)]\<rparr>),
      next_answer = 2,
      recursion_limit = 100\<rparr>"

text \<open>The example of the specification's scenario for alias substitution.\<close>

definition obama_heap :: heap where
  "obama_heap =
     \<lparr>examples = (\<lambda>r. no_example)
        (0 := \<lparr>uid = ''q1'', query = ''Who was the 44th President?'',
               context' = ''Barack Obama was the 44th President.'', gold_answers = [0],
               is_substitute = False, metadata = Some [], original_example = None\<rparr>),
      next_example = 1,
      answers = (\<lambda>r. no_answer)
        (0 := \<lparr>text' = ''Barack Obama'', spans = Some [(0, 12)],
               ner_label = Some ''PERSON'', kb_id = Some ''Q76'',
               wikidata_label = Some ''Barack Obama'', aliases = Some [''Obama''],
               wikidata_types = Some [''q5''], wikipedia_page = Some ''Barack_Obama'',
               popularity = Some 5000, answer_type = Some ''PERSON''\<rparr>),
      next_answer = 1,
      recursion_limit = 100\<rparr>"

text \<open>An example whose only gold answer does not occur in its passage.\<close>

definition berlin_heap :: heap where
  "berlin_heap =
     \<lparr>examples = (\<lambda>r. no_example)
        (0 := \<lparr>uid = ''q3'', query = ''Where is the gate?'',
               context' = ''Paris is nice.'', gold_answers = [0],
               is_substitute = False, metadata = Some [], original_example = None\<rparr>),
      next_example = 1,
      answers = (\<lambda>r. no_answer)
        (0 := no_answer\<lparr>text' := ''Berlin'', spans := Some []\<rparr>,
         1 := no_answer\<lparr>text' := ''Rome''\<rparr>),
      next_answer = 2,
      recursion_limit = 100\<rparr>"

text \<open>An example whose answer type is \<open>DATE\<close>, with one alias.\<close>

definition year_heap :: heap where
  "year_heap =
     \<lparr>examples = (\<lambda>r. no_example)
        (0 := \<lparr>uid = ''q5'', query = ''When was it released?'',
               context' = ''Released in 1999.'', gold_answers = [0],
               is_substitute = False, metadata = Some [], original_example = None\<rparr>),
      next_example = 1,
      answers = (\<lambda>r. no_answer)
        (0 := \<lparr>text' = ''1999'', spans = Some [(12, 16)],
               ner_label = Some ''DATE'', kb_id = Some ''Q2091'',
               wikidata_label = Some ''1999'', aliases = Some [''MCMXCIX''],
               wikidata_types = Some [''q577''], wikipedia_page = Some ''1999'',
               popularity = Some 800, answer_type = Some ''DATE''\<rparr>),
      next_answer = 1,
      recursion_limit = 100\<rparr>"

text \<open>Two people of different popularity.\<close>

definition two_people :: "(string \<times> wikidata_entity) list" where
  "two_people =
     [(''Q76'', \<lparr>entity_label = ''Barack Obama'', entity_aliases = [''Obama''],
                entity_types = [''Q5''], entity_wikipedia_page = ''Barack_Obama'',
                entity_popularity = 5000\<rparr>),
      (''Q937'', \<lparr>entity_label = ''Albert Einstein'', entity_aliases = [''Einstein''],
                 entity_types = [''Q5''], entity_wikipedia_page = ''Albert_Einstein'',
                 entity_popularity = 3000\<rparr>)]"

section \<open>Auxiliary notions for the proofs\<close>

text \<open>
  A counter \<open>kcs\<close> holds the counts of the list \<open>ys\<close>: its keys are distinct, and an entry
  \<open>(k, c)\<close> is in it exactly when \<open>k\<close> occurs \<open>c > 0\<close> times in \<open>ys\<close>.
\<close>

definition counts_of :: "'a list \<Rightarrow> ('a \<times> nat) list \<Rightarrow> bool" where
  "counts_of ys kcs \<longleftrightarrow>
     distinct (map fst kcs) \<and> (\<forall>k c. (k, c) \<in> set kcs \<longleftrightarrow> (count_list ys k = c \<and> 0 < c))"

text \<open>An example with three gold answers of two answer types.\<close>

definition types_heap :: heap where
  "types_heap =
     \<lparr>examples = (\<lambda>r. no_example)
        (0 := \<lparr>uid = ''q9'', query = ''Who or where?'',
               context' = ''Lincoln met Grant in Washington.'', gold_answers = [0, 1, 2],
               is_substitute = False, metadata = Some [], original_example = None\<rparr>),
      next_example = 1,
      answers = (\<lambda>r. no_answer)
        (0 := no_answer\<lparr>text' := ''Washington'', spans := Some [(21, 31)],
                         answer_type := Some ''LOCATION''\<rparr>,
         1 := no_answer\<lparr>text' := ''Lincoln'', spans := Some [(0, 7)],
                         answer_type := Some ''PERSON''\<rparr>,
         2 := no_answer\<lparr>text' := ''Grant'', spans := Some [(12, 17)],
                         answer_type := Some ''PERSON''\<rparr>),
      next_answer = 3,
      recursion_limit = 100\<rparr>"

text \<open>
  The key that the \<open>j\<close>-th call of \<open>random.choice\<close> returns, and a generator whose
  \<open>j\<close>-th value is \<open>j\<close>.
\<close>

definition draw :: "(nat \<Rightarrow> nat) \<Rightarrow> string list \<Rightarrow> nat \<Rightarrow> string" where
  "draw rng sample_keys j = sample_keys ! (rng j mod length sample_keys)"

definition counting_draws :: "nat \<Rightarrow> nat" where
  "counting_draws i = i"

text \<open>
  A candidate text that the loop of \<open>select_random_non_identical_answer\<close> does not
  accept for the example \<open>ex\<close>: the empty text, or a text whose normalized form is the
  normalized form of a gold answer.
\<close>

definition excluded :: "heap \<Rightarrow> ref \<Rightarrow> string \<Rightarrow> bool" where
  "excluded h ex k \<longleftrightarrow>
     k = [] \<or> normalize_text k \<in> set (map (\<lambda>ga. normalize_text (text' ga)) (gold_answer_objs h ex))"



section \<open>Properties of the string functions\<close>

lemma length_py_lower [simp]: "length (py_lower s) = length s"
  by (simp add: py_lower_def)

lemma prefix_take_iff: "prefix xs ys \<longleftrightarrow> length xs \<le> length ys \<and> take (length xs) ys = xs"
  by (metis append_eq_conv_conj prefix_def prefix_length_le take_is_prefix)

subsection \<open>One step of the scan\<close>

lemma finditer_from_Nil: "finditer_from pat pos [] = (if pat = [] then [(pos, pos)] else [])"
  by (simp add: finditer_from.simps [of pat pos "[]"])

lemma finditer_from_empty_Cons:
  "finditer_from [] pos (c # cs) = (pos, pos) # finditer_from [] (Suc pos) cs"
  by (simp add: finditer_from.simps [of "[]" pos "c # cs"])

lemma finditer_from_match:
  "pat \<noteq> [] \<Longrightarrow> prefix pat s \<Longrightarrow>
     finditer_from pat pos s =
       (pos, pos + length pat) # finditer_from pat (pos + length pat) (drop (length pat) s)"
  by (simp add: finditer_from.simps [of pat pos s])

lemma finditer_from_nomatch:
  "\<not> prefix pat (c # cs) \<Longrightarrow> finditer_from pat pos (c # cs) = finditer_from pat (Suc pos) cs"
  by (simp add: finditer_from.simps [of pat pos "c # cs"])

subsection \<open>Every reported span is a match\<close>

lemma finditer_from_sound:
  "(a, b) \<in> set (finditer_from pat pos s) \<Longrightarrow>
     pos \<le> a \<and> b = a + length pat \<and> b \<le> pos + length s \<and> prefix pat (drop (a - pos) s)"
proof (induction pat pos s rule: finditer_from.induct)
  case (1 pat pos s)
  show ?case
  proof (cases "prefix pat s")
    case True
    note pre = True
    show ?thesis
    proof (cases "pat = []")
      case True
      show ?thesis
      proof (cases s)
        case Nil
        with 1(4) True show ?thesis
          by (simp add: finditer_from_Nil)
      next
        case (Cons c cs)
        from 1(4) True Cons
        consider "(a, b) = (pos, pos)" | "(a, b) \<in> set (finditer_from pat (Suc pos) cs)"
          by (auto simp: finditer_from_empty_Cons)
        then show ?thesis
        proof cases
          case 1
          then show ?thesis using True by simp
        next
          case 2
          from "1.IH"(1) [OF pre True Cons 2] show ?thesis
            using Cons True by (auto simp: Suc_diff_le)
        qed
      qed
    next
      case False
      from 1(4) pre False
      consider "(a, b) = (pos, pos + length pat)"
        | "(a, b) \<in> set (finditer_from pat (pos + length pat) (drop (length pat) s))"
        by (auto simp: finditer_from_match)
      then show ?thesis
      proof cases
        case 1
        then show ?thesis using pre by (auto dest: prefix_length_le)
      next
        case 2
        from "1.IH"(2) [OF pre False 2]
        have *: "pos + length pat \<le> a" "b = a + length pat"
          "b \<le> pos + length pat + length (drop (length pat) s)"
          "prefix pat (drop (a - (pos + length pat)) (drop (length pat) s))"
          by auto
        have "length pat \<le> length s" using pre by (rule prefix_length_le)
        moreover have "a - (pos + length pat) + length pat = a - pos" using *(1) by arith
        ultimately show ?thesis using * by auto
      qed
    qed
  next
    case False
    show ?thesis
    proof (cases s)
      case Nil
      with 1(4) False show ?thesis by (simp add: finditer_from_Nil)
    next
      case (Cons c cs)
      with 1(4) False have "(a, b) \<in> set (finditer_from pat (Suc pos) cs)"
        by (simp add: finditer_from_nomatch)
      from "1.IH"(3) [OF False Cons this]
      have *: "Suc pos \<le> a" "b = a + length pat" "b \<le> Suc pos + length cs"
        "prefix pat (drop (a - Suc pos) cs)"
        by auto
      have "a - pos = Suc (a - Suc pos)" using *(1) by arith
      then show ?thesis using * Cons by simp
    qed
  qed
qed

subsection \<open>The spans go from left to right and do not overlap\<close>


subsection \<open>Every occurrence is reported or overlaps an earlier reported span\<close>

lemma finditer_from_complete:
  "k \<le> length s \<Longrightarrow> prefix pat (drop k s) \<Longrightarrow>
     (pos + k, pos + k + length pat) \<in> set (finditer_from pat pos s) \<or>
     (\<exists>(a, b) \<in> set (finditer_from pat pos s). a < pos + k \<and> pos + k < b)"
proof (induction pat pos s arbitrary: k rule: finditer_from.induct)
  case (1 pat pos s)
  show ?case
  proof (cases "prefix pat s")
    case True
    note pre = True
    show ?thesis
    proof (cases "pat = []")
      case True
      show ?thesis
      proof (cases s)
        case Nil
        with True 1(4) show ?thesis by (simp add: finditer_from_Nil)
      next
        case (Cons c cs)
        show ?thesis
        proof (cases k)
          case 0
          then show ?thesis using True Cons by (simp add: finditer_from_empty_Cons)
        next
          case (Suc j)
          with 1(4,5) Cons have "j \<le> length cs" "prefix pat (drop j cs)" by auto
          from "1.IH"(1) [OF pre True Cons this] show ?thesis
            using True Cons Suc by (auto simp: finditer_from_empty_Cons)
        qed
      qed
    next
      case False
      let ?n = "length pat"
      have r: "finditer_from pat pos s =
          (pos, pos + ?n) # finditer_from pat (pos + ?n) (drop ?n s)"
        using False pre by (rule finditer_from_match)
      consider "k = 0" | "0 < k" "k < ?n" | "?n \<le> k" by linarith
      then show ?thesis
      proof cases
        case 1
        then show ?thesis by (simp add: r)
      next
        case 2
        then show ?thesis by (auto simp: r)
      next
        case 3
        have "k - ?n \<le> length (drop ?n s)" using 1(4) 3 by simp
        moreover have "prefix pat (drop (k - ?n) (drop ?n s))" using 1(5) 3 by simp
        ultimately have "(pos + ?n + (k - ?n), pos + ?n + (k - ?n) + ?n)
             \<in> set (finditer_from pat (pos + ?n) (drop ?n s)) \<or>
           (\<exists>(a, b) \<in> set (finditer_from pat (pos + ?n) (drop ?n s)).
               a < pos + ?n + (k - ?n) \<and> pos + ?n + (k - ?n) < b)"
          by (rule "1.IH"(2) [OF pre False])
        moreover have "pos + ?n + (k - ?n) = pos + k" using 3 by simp
        ultimately show ?thesis by (auto simp: r)
      qed
    qed
  next
    case False
    show ?thesis
    proof (cases s)
      case Nil
      with False 1(4,5) show ?thesis by simp
    next
      case (Cons c cs)
      show ?thesis
      proof (cases k)
        case 0
        with False 1(5) show ?thesis by simp
      next
        case (Suc j)
        with 1(4,5) Cons have "j \<le> length cs" "prefix pat (drop j cs)" by auto
        from "1.IH"(3) [OF False Cons this] show ?thesis
          using False Cons Suc by (auto simp: finditer_from_nomatch)
      qed
    qed
  qed
qed

subsection \<open>The span finder\<close>

lemma occurs_at_by_prefix:
  "occurs_at_by f needle hay p \<longleftrightarrow>
     p \<le> length hay \<and> prefix (map f needle) (drop p (map f hay))"
  by (auto simp: occurs_at_by_def slice_def prefix_take_iff take_map drop_map)

lemma find_answer_in_context_by_sound:
  assumes n: "lower needle = map f needle" and h: "lower hay = map f hay"
    and m: "(s, e) \<in> set (find_answer_in_context_by lower needle hay)"
  shows "e = s + length needle \<and> e \<le> length hay \<and> occurs_at_by f needle hay s"
proof -
  from m have "(s, e) \<in> set (finditer_from (map f needle) 0 (map f hay))"
    by (simp add: find_answer_in_context_by_def finditer_def n h)
  from finditer_from_sound [OF this] show ?thesis
    by (auto simp: occurs_at_by_prefix)
qed

lemma find_answer_in_context_by_complete:
  assumes n: "lower needle = map f needle" and h: "lower hay = map f hay"
    and o: "occurs_at_by f needle hay p"
  shows "(p, p + length needle) \<in> set (find_answer_in_context_by lower needle hay) \<or>
         (\<exists>(s, e) \<in> set (find_answer_in_context_by lower needle hay). s < p \<and> p < e)"
proof -
  from o have "p \<le> length (map f hay)" "prefix (map f needle) (drop p (map f hay))"
    by (simp_all add: occurs_at_by_prefix)
  from finditer_from_complete [OF this, of 0] show ?thesis
    by (simp add: find_answer_in_context_by_def finditer_def n h)
qed


lemma find_answer_in_context_by_empty:
  assumes n: "lower needle = map f needle" and h: "lower hay = map f hay"
  shows "find_answer_in_context_by lower needle hay = [] \<longleftrightarrow>
           (\<forall>p. \<not> occurs_at_by f needle hay p)"
proof
  assume "find_answer_in_context_by lower needle hay = []"
  then show "\<forall>p. \<not> occurs_at_by f needle hay p"
    using find_answer_in_context_by_complete [OF n h] by fastforce
next
  assume none: "\<forall>p. \<not> occurs_at_by f needle hay p"
  show "find_answer_in_context_by lower needle hay = []"
  proof (cases "find_answer_in_context_by lower needle hay")
    case Nil
    then show ?thesis .
  next
    case (Cons x xs)
    then have "(fst x, snd x) \<in> set (find_answer_in_context_by lower needle hay)" by simp
    from find_answer_in_context_by_sound [OF n h this] none show ?thesis by blast
  qed
qed

subsection \<open>Lower-casing of ASCII characters and letter case\<close>










subsection \<open>What the span finder returns\<close>


text \<open>
  In general the spans are those of the lower-cased needle in the lower-cased haystack.
\<close>

lemma find_answer_in_context_by_in_lowered:
  "(\<forall>(s, e) \<in> set (find_answer_in_context_by lower needle hay).
       e = s + length (lower needle) \<and> e \<le> length (lower hay) \<and>
       slice (lower hay) s e = lower needle)
   \<and> (find_answer_in_context_by lower needle hay = [] \<longleftrightarrow>
         (\<forall>p. \<not> (p + length (lower needle) \<le> length (lower hay) \<and>
                 slice (lower hay) p (p + length (lower needle)) = lower needle)))"
proof -
  have eq: "find_answer_in_context_by lower needle hay
      = find_answer_in_context_by (\<lambda>s. s) (lower needle) (lower hay)"
    by (simp add: find_answer_in_context_by_def)
  have i: "(\<lambda>s. s) (lower needle) = map (\<lambda>c. c) (lower needle)"
    "(\<lambda>s. s) (lower hay) = map (\<lambda>c. c) (lower hay)"
    by simp_all
  have "\<forall>(s, e) \<in> set (find_answer_in_context_by lower needle hay).
       e = s + length (lower needle) \<and> e \<le> length (lower hay) \<and>
       slice (lower hay) s e = lower needle"
    unfolding eq using find_answer_in_context_by_sound [OF i]
    by (fastforce simp: occurs_at_by_def)
  moreover have "find_answer_in_context_by lower needle hay = [] \<longleftrightarrow>
         (\<forall>p. \<not> (p + length (lower needle) \<le> length (lower hay) \<and>
                 slice (lower hay) p (p + length (lower needle)) = lower needle))"
    unfolding eq using find_answer_in_context_by_empty [OF i]
    by (simp add: occurs_at_by_def)
  ultimately show ?thesis by blast
qed




section \<open>Properties of the answer-type classifier\<close>

text \<open>
  Claim C6. For every NER label (possibly absent) and every list of Wikidata types, the
  classifier returns the first matching rule of the specification's list: \<open>PERSON\<close> for
  the label \<open>PERSON\<close>; \<open>DATE\<close> for the label \<open>DATE\<close>, or for \<open>CARDINAL\<close> with \<open>year\<close> among
  the types; \<open>NUMERIC\<close> for \<open>CARDINAL\<close> or \<open>QUANTITY\<close>; \<open>LOCATION\<close> for \<open>GPE\<close> or \<open>LOC\<close>;
  \<open>ORGANIZATION\<close> for \<open>ORG\<close>; absent otherwise. The result depends on the label and the
  types only, so two invocations on the same inputs agree.
\<close>

theorem select_answer_type_classify:
  "wikidata_types a = Some ts \<Longrightarrow>
     select_answer_type a = Inr (classify_spec (ner_label a) ts)"
  by (simp add: select_answer_type_def classify_spec_def)

theorem select_answer_type_classify_witness:
  "wikidata_types
     \<lparr>text' = ''1999'', spans = None, ner_label = Some ''CARDINAL'', kb_id = None,
      wikidata_label = None, aliases = None, wikidata_types = Some [''year''],
      wikipedia_page = None, popularity = None, answer_type = None\<rparr> = Some [''year'']
   \<and> select_answer_type
     \<lparr>text' = ''1999'', spans = None, ner_label = Some ''CARDINAL'', kb_id = None,
      wikidata_label = None, aliases = None, wikidata_types = Some [''year''],
      wikipedia_page = None, popularity = None, answer_type = None\<rparr> = Inr (Some ''DATE'')"
  using select_answer_type_classify
    [of "\<lparr>text' = ''1999'', spans = None, ner_label = Some ''CARDINAL'', kb_id = None,
      wikidata_label = None, aliases = None, wikidata_types = Some [''year''],
      wikipedia_page = None, popularity = None, answer_type = None\<rparr>" "[''year'']"]
  by (simp add: classify_spec_def)

section \<open>Properties of the majority answer type\<close>

lemma counter_add_map_fst:
  "map fst (counter_add x kcs) =
     (if x \<in> set (map fst kcs) then map fst kcs else map fst kcs @ [x])"
  by (induction x kcs rule: counter_add.induct) auto

lemma counter_add_keys:
  "set (map fst (counter_add x kcs)) = insert x (set (map fst kcs))"
  by (simp only: counter_add_map_fst) auto

lemma counter_add_distinct:
  "distinct (map fst kcs) \<Longrightarrow> distinct (map fst (counter_add x kcs))"
proof (induction kcs)
  case Nil
  then show ?case by simp
next
  case (Cons kc kcs)
  obtain k c where kc: "kc = (k, c)" by (cases kc)
  from Cons show ?case
    using counter_add_keys [of x kcs] by (auto simp: kc simp del: set_map)
qed

lemma counter_add_set:
  "distinct (map fst kcs) \<Longrightarrow>
     (k, c) \<in> set (counter_add x kcs) \<longleftrightarrow>
       (if k = x then (if x \<in> fst ` set kcs then (\<exists>c'. (x, c') \<in> set kcs \<and> c = Suc c') else c = 1)
        else (k, c) \<in> set kcs)"
proof (induction kcs)
  case Nil
  then show ?case by auto
next
  case (Cons kc kcs)
  obtain k' c' where kc: "kc = (k', c')" by (cases kc)
  from Cons.prems have d: "distinct (map fst kcs)" and nk: "k' \<notin> fst ` set kcs"
    by (simp_all add: kc)
  show ?case
  proof (cases "k' = x")
    case True
    with nk show ?thesis by (auto simp: kc rev_image_eqI)
  next
    case False
    with Cons.IH [OF d] show ?thesis by (auto simp: kc)
  qed
qed

lemma counts_of_counter_add:
  assumes "counts_of ys kcs"
  shows "counts_of (ys @ [x]) (counter_add x kcs)"
proof -
  from assms have d: "distinct (map fst kcs)"
    and m: "\<And>k c. (k, c) \<in> set kcs \<longleftrightarrow> (count_list ys k = c \<and> 0 < c)"
    by (auto simp: counts_of_def)
  have in_keys: "x \<in> fst ` set kcs \<longleftrightarrow> 0 < count_list ys x"
    using m by (force simp: image_iff)
  have "(k, c) \<in> set (counter_add x kcs) \<longleftrightarrow> (count_list (ys @ [x]) k = c \<and> 0 < c)" for k c
    unfolding counter_add_set [OF d] using m in_keys by (auto)
  with counter_add_distinct [OF d] show ?thesis by (simp add: counts_of_def)
qed

lemma counts_of_fold:
  "counts_of ys kcs \<Longrightarrow> counts_of (ys @ xs) (fold counter_add xs kcs)"
proof (induction xs arbitrary: ys kcs)
  case Nil
  then show ?case by simp
next
  case (Cons x xs)
  from Cons.IH [OF counts_of_counter_add [OF Cons.prems, where x = x]] show ?case by simp
qed

lemma counts_of_Nil: "counts_of [] []"
  by (auto simp: counts_of_def)

lemma counts_of_Counter: "counts_of xs (Counter xs)"
  using counts_of_fold [OF counts_of_Nil, of xs] by (simp add: Counter_def)

lemma max_by_count_mem: "max_by_count best xs \<in> set (best # xs)"
  by (induction xs arbitrary: best) (auto split: if_splits)

lemma max_by_count_ge: "\<forall>y \<in> set (best # xs). snd y \<le> snd (max_by_count best xs)"
proof (induction xs arbitrary: best)
  case Nil
  then show ?case by simp
next
  case (Cons x xs)
  let ?b = "if snd best < snd x then x else best"
  from Cons.IH [of ?b]
  have ih: "\<forall>y \<in> set (?b # xs). snd y \<le> snd (max_by_count ?b xs)" .
  then have "snd ?b \<le> snd (max_by_count ?b xs)" by simp
  moreover have "snd best \<le> snd ?b" "snd x \<le> snd ?b" by simp_all
  ultimately have "snd best \<le> snd (max_by_count ?b xs)" "snd x \<le> snd (max_by_count ?b xs)"
    by linarith+
  with ih show ?case by simp
qed

lemma most_common_1_Nil: "most_common_1 (Counter xs) = [] \<longleftrightarrow> xs = []"
proof
  assume "most_common_1 (Counter xs) = []"
  then have "Counter xs = []" by (simp add: most_common_1_def split: list.splits)
  with counts_of_Counter [of xs] have "\<forall>k. count_list xs k = 0"
    by (auto simp: counts_of_def)
  then have "set xs = {}" by (auto simp: count_list_0_iff)
  then show "xs = []" by simp
next
  assume "xs = []"
  then show "most_common_1 (Counter xs) = []" by (simp add: most_common_1_def Counter_def)
qed

lemma most_common_1_max:
  assumes "most_common_1 (Counter xs) = kc # rest"
  shows "fst kc \<in> set xs \<and> snd kc = count_list xs (fst kc) \<and>
         (\<forall>u. count_list xs u \<le> count_list xs (fst kc))"
proof -
  from assms obtain y ys where C: "Counter xs = y # ys" and kc: "kc = max_by_count y ys"
    by (auto simp: most_common_1_def split: list.splits)
  have mem: "kc \<in> set (Counter xs)" using max_by_count_mem [of y ys] C kc by simp
  from counts_of_Counter [of xs]
  have m: "\<And>k c. (k, c) \<in> set (Counter xs) \<longleftrightarrow> (count_list xs k = c \<and> 0 < c)"
    by (auto simp: counts_of_def)
  from mem m [of "fst kc" "snd kc"] have c: "count_list xs (fst kc) = snd kc" "0 < snd kc"
    by simp_all
  then have "fst kc \<in> set xs" by (metis count_list_0_iff less_numeral_extra(3))
  moreover have "count_list xs u \<le> count_list xs (fst kc)" for u
  proof (cases "count_list xs u = 0")
    case True
    then show ?thesis by simp
  next
    case False
    then have "(u, count_list xs u) \<in> set (Counter xs)" using m by simp
    with max_by_count_ge [of y ys] C kc c show ?thesis by fastforce
  qed
  ultimately show ?thesis using c by simp
qed

lemma truthy_answer_types_set:
  "t \<in> set (truthy_answer_types golds) \<longleftrightarrow> t \<noteq> [] \<and> (\<exists>a \<in> set golds. answer_type a = Some t)"
  by (induction golds) (auto simp: truthy_answer_types_def split: option.splits if_splits)

lemma truthy_answer_types_count:
  "t \<noteq> [] \<Longrightarrow>
     count_list (truthy_answer_types golds) t = count_list (map answer_type golds) (Some t)"
  by (induction golds) (auto simp: truthy_answer_types_def split: option.splits)

text \<open>
  Claim C10. For an example whose gold answers carry answer types that are absent or
  non-empty names (the classifier produces no empty name; Python counts an empty string
  as absent), \<open>get_example_answer_type\<close> returns absent exactly when no gold answer has
  an answer type, and otherwise returns the answer type of some gold answer whose
  number of occurrences among the gold answers' types is maximal.
\<close>

theorem get_example_answer_type_majority:
  assumes "\<forall>a \<in> set (gold_answer_objs h ex). answer_type a \<noteq> Some []"
  shows "(get_example_answer_type h ex = None \<longleftrightarrow>
            (\<forall>a \<in> set (gold_answer_objs h ex). answer_type a = None))
       \<and> (\<forall>t. get_example_answer_type h ex = Some t \<longrightarrow>
            (\<exists>a \<in> set (gold_answer_objs h ex). answer_type a = Some t) \<and>
            (\<forall>u. count_list (map answer_type (gold_answer_objs h ex)) (Some u)
                   \<le> count_list (map answer_type (gold_answer_objs h ex)) (Some t)))"
proof (intro conjI allI impI)
  let ?G = "gold_answer_objs h ex"
  let ?T = "truthy_answer_types ?G"
  have none: "get_example_answer_type h ex = None \<longleftrightarrow> ?T = []"
    using most_common_1_Nil [of ?T]
    by (cases "most_common_1 (Counter ?T)") (simp_all add: get_example_answer_type_def)
  have "?T = [] \<longleftrightarrow> (\<forall>a \<in> set ?G. answer_type a = None)"
  proof
    assume "?T = []"
    then have "\<forall>t. t \<notin> set ?T" by simp
    with assms show "\<forall>a \<in> set ?G. answer_type a = None"
      unfolding truthy_answer_types_set by (metis not_Some_eq)
  next
    assume "\<forall>a \<in> set ?G. answer_type a = None"
    then have "\<forall>t. t \<notin> set ?T" unfolding truthy_answer_types_set by simp
    then show "?T = []" by (cases ?T) auto
  qed
  with none show "get_example_answer_type h ex = None \<longleftrightarrow>
            (\<forall>a \<in> set ?G. answer_type a = None)" by simp
  fix t
  assume r: "get_example_answer_type h ex = Some t"
  then obtain kc rest where mc: "most_common_1 (Counter ?T) = kc # rest" and t: "t = fst kc"
    by (auto simp: get_example_answer_type_def Let_def split: list.splits)
  from most_common_1_max [OF mc] t
  have mem: "t \<in> set ?T" and mx: "\<And>u. count_list ?T u \<le> count_list ?T t" by simp_all
  from mem have tne: "t \<noteq> []" and ex: "\<exists>a \<in> set ?G. answer_type a = Some t"
    by (simp_all add: truthy_answer_types_set)
  from ex show "\<exists>a \<in> set ?G. answer_type a = Some t" .
  fix u
  show "count_list (map answer_type ?G) (Some u) \<le> count_list (map answer_type ?G) (Some t)"
  proof (cases "u = []")
    case True
    with assms have "Some u \<notin> set (map answer_type ?G)" by auto
    then have "count_list (map answer_type ?G) (Some u) = 0" by (metis count_list_0_iff)
    then show ?thesis by simp
  next
    case False
    from mx [of u] show ?thesis
      by (simp add: truthy_answer_types_count [OF False] truthy_answer_types_count [OF tne])
  qed
qed

theorem get_example_answer_type_majority_witness:
  "map answer_type (gold_answer_objs types_heap 0)
     = [Some ''LOCATION'', Some ''PERSON'', Some ''PERSON'']
   \<and> get_example_answer_type types_heap 0 = Some ''PERSON''
   \<and> count_list (map answer_type (gold_answer_objs types_heap 0)) (Some ''LOCATION'')
       \<le> count_list (map answer_type (gold_answer_objs types_heap 0)) (Some ''PERSON'')"
proof -
  have m: "map answer_type (gold_answer_objs types_heap 0)
     = [Some ''LOCATION'', Some ''PERSON'', Some ''PERSON'']"
    by code_simp
  have "\<forall>t \<in> set (map answer_type (gold_answer_objs types_heap 0)). t \<noteq> Some []"
    unfolding m by simp
  then have h: "\<forall>a \<in> set (gold_answer_objs types_heap 0). answer_type a \<noteq> Some []"
    by simp
  have r: "get_example_answer_type types_heap 0 = Some ''PERSON''"
    by code_simp
  from get_example_answer_type_majority [OF h] r
  have "count_list (map answer_type (gold_answer_objs types_heap 0)) (Some ''LOCATION'')
       \<le> count_list (map answer_type (gold_answer_objs types_heap 0)) (Some ''PERSON'')"
    by blast
  with m r show ?thesis by simp
qed

section \<open>What copying and substitution change in the store\<close>

lemma deepcopy_answers_frame:
  "deepcopy_answers memo h as = (bs, memo', h') \<Longrightarrow>
     examples h' = examples h \<and> next_example h' = next_example h \<and>
     recursion_limit h' = recursion_limit h \<and>
     next_answer h \<le> next_answer h' \<and> (\<forall>a < next_answer h. answers h' a = answers h a)"
proof (induction as arbitrary: memo h bs memo' h')
  case Nil
  then show ?case by simp
next
  case (Cons a as)
  show ?case
  proof (cases "map_of memo a")
    case (Some a')
    with Cons.prems obtain bs0 where "deepcopy_answers memo h as = (bs0, memo', h')"
      by (auto split: prod.splits)
    from Cons.IH [OF this] show ?thesis .
  next
    case None
    let ?h1 = "snd (new_answer h (answers h a))"
    let ?a' = "fst (new_answer h (answers h a))"
    from None Cons.prems obtain bs0 where
      "deepcopy_answers ((a, ?a') # memo) ?h1 as = (bs0, memo', h')"
      by (auto split: prod.splits)
    from Cons.IH [OF this] show ?thesis
      by (auto simp: new_answer_def)
  qed
qed

lemma deepcopy_example_frame:
  "deepcopy_example n memo_ex memo_ans h p = (r, memo_ex', memo_ans', h') \<Longrightarrow>
     next_example h \<le> next_example h' \<and> next_answer h \<le> next_answer h' \<and>
     recursion_limit h' = recursion_limit h \<and>
     (\<forall>q < next_example h. examples h' q = examples h q) \<and>
     (\<forall>a < next_answer h. answers h' a = answers h a)"
proof (induction n arbitrary: memo_ex memo_ans h p r memo_ex' memo_ans' h')
  case 0
  then show ?case by simp
next
  case (Suc n)
  show ?case
  proof (cases "map_of memo_ex p")
    case (Some q)
    with Suc.prems show ?thesis by simp
  next
    case None
    let ?q = "next_example h"
    let ?e = "examples h p"
    let ?h1 = "h\<lparr>next_example := Suc ?q\<rparr>"
    obtain as' memo_ans1 h2 where
      da: "deepcopy_answers memo_ans ?h1 (gold_answers ?e) = (as', memo_ans1, h2)"
      by (cases "deepcopy_answers memo_ans ?h1 (gold_answers ?e)") auto
    from deepcopy_answers_frame [OF da]
    have f2: "examples h2 = examples h" "next_example h2 = Suc ?q"
      "recursion_limit h2 = recursion_limit h"
      "next_answer h \<le> next_answer h2" "\<forall>a < next_answer h. answers h2 a = answers h a"
      by simp_all
    show ?thesis
    proof (cases "original_example ?e")
      case None
      with \<open>map_of memo_ex p = None\<close> da Suc.prems
      have "h' = set_example h2 ?q (?e\<lparr>gold_answers := as'\<rparr>)"
        by (simp add: Let_def)
      with f2 show ?thesis by (simp add: set_example_def)
    next
      case (Some orig)
      obtain r3 me3 ma3 h3 where
        rec: "deepcopy_example n ((p, ?q) # memo_ex) memo_ans1 h2 orig = (r3, me3, ma3, h3)"
        by (cases "deepcopy_example n ((p, ?q) # memo_ex) memo_ans1 h2 orig") auto
      from Suc.IH [OF rec]
      have f3: "next_example h2 \<le> next_example h3" "next_answer h2 \<le> next_answer h3"
        "recursion_limit h3 = recursion_limit h2"
        "\<forall>q < next_example h2. examples h3 q = examples h2 q"
        "\<forall>a < next_answer h2. answers h3 a = answers h2 a"
        by simp_all
      from Some \<open>map_of memo_ex p = None\<close> da rec Suc.prems
      have "h' = h3 \<or> (\<exists>e'. h' = set_example h3 ?q e')"
        by (auto simp: Let_def split: sum.splits)
      with f2 f3 show ?thesis by (auto simp: set_example_def)
    qed
  qed
qed

lemma deepcopy_fresh:
  "deepcopy h p = (Inr q, h') \<Longrightarrow> q = next_example h"
  by (cases "recursion_limit h")
     (auto simp: deepcopy_def Let_def split: prod.splits option.splits sum.splits)

lemma deepcopy_frame:
  "deepcopy h p = (r, h') \<Longrightarrow>
     next_example h \<le> next_example h' \<and> next_answer h \<le> next_answer h' \<and>
     (\<forall>q < next_example h. examples h' q = examples h q) \<and>
     (\<forall>a < next_answer h. answers h' a = answers h a)"
  using deepcopy_example_frame by (fastforce simp: deepcopy_def split: prod.splits)


lemma update_context_frame:
  "update_context_with_substitution h self sub_answer flag = Inr h' \<Longrightarrow>
     answers h' = answers h \<and> next_answer h' = next_answer h \<and>
     next_example h' = next_example h \<and>
     (\<forall>q. q \<noteq> self \<longrightarrow> examples h' q = examples h q)"
  by (auto simp: update_context_with_substitution_def Let_def set_example_def split: sum.splits)

lemma apply_substitution_frame:
  "apply_substitution h self sub_answer original sub_type flag = (r, h') \<Longrightarrow>
     answers h' = answers h \<and> next_answer h' = next_answer h \<and>
     next_example h' = next_example h \<and>
     (\<forall>q. q \<noteq> self \<longrightarrow> examples h' q = examples h q)"
proof -
  assume a: "apply_substitution h self sub_answer original sub_type flag = (r, h')"
  let ?h1 = "set_example h self
                 ((examples h self)\<lparr>uid := sub_type @ ''_'' @ uid (examples h self)\<rparr>)"
  have f1: "answers ?h1 = answers h" "next_answer ?h1 = next_answer h"
    "next_example ?h1 = next_example h" "\<forall>q. q \<noteq> self \<longrightarrow> examples ?h1 q = examples h q"
    by (simp_all add: set_example_def)
  show ?thesis
  proof (cases "update_context_with_substitution ?h1 self sub_answer flag")
    case (Inl err)
    with a have "h' = ?h1" by (simp add: apply_substitution_def Let_def)
    with f1 show ?thesis by simp
  next
    case (Inr h2)
    with a have "h' = set_example h2 self
                         ((examples h2 self)\<lparr>gold_answers := [sub_answer],
                                              is_substitute := True,
                                              original_example := Some original\<rparr>)"
      by (simp add: apply_substitution_def Let_def)
    with update_context_frame [OF Inr] f1 show ?thesis by (simp add: set_example_def)
  qed
qed

text \<open>
  Claim C9. \<open>create_new_example\<close> leaves the original example as it was: for an example
  that exists in the store, with gold answers that exist, the uid, query, context, list
  of gold answers, every gold answer object (its text, spans and other fields),
  \<open>is_substitute\<close>, \<open>original_example\<close> and metadata are after the call what they were
  before it, whether the call returns a derived example or raises. The same holds for
  every other example and answer that existed before the call, so a later run over the
  same dataset sees the same originals.
\<close>

theorem create_new_example_preserves_original:
  assumes run: "create_new_example h ex new_id answer_text nl kb wl al wt wp pop at flag = (r, h')"
    and ex: "ex < next_example h"
    and golds: "\<forall>a \<in> set (gold_answers (examples h ex)). a < next_answer h"
  shows "uid (examples h' ex) = uid (examples h ex)
       \<and> query (examples h' ex) = query (examples h ex)
       \<and> context' (examples h' ex) = context' (examples h ex)
       \<and> gold_answers (examples h' ex) = gold_answers (examples h ex)
       \<and> (\<forall>a \<in> set (gold_answers (examples h' ex)). answers h' a = answers h a)
       \<and> is_substitute (examples h' ex) = is_substitute (examples h ex)
       \<and> original_example (examples h' ex) = original_example (examples h ex)
       \<and> metadata (examples h' ex) = metadata (examples h ex)
       \<and> (\<forall>p < next_example h. examples h' p = examples h p)
       \<and> (\<forall>a < next_answer h. answers h' a = answers h a)"
proof -
  obtain r1 h1 where dc: "deepcopy h ex = (r1, h1)" by (cases "deepcopy h ex") auto
  note f1 = deepcopy_frame [OF dc]
  have frame: "(\<forall>p < next_example h. examples h' p = examples h p) \<and>
         (\<forall>a < next_answer h. answers h' a = answers h a)"
  proof (cases r1)
    case (Inl err)
    with run dc have "h' = h1" by (simp add: create_new_example_def)
    with f1 show ?thesis by simp
  next
    case (Inr sub_ex)
    with dc have fresh: "sub_ex = next_example h" by (simp add: deepcopy_fresh)
    let ?a = "\<lparr>text' = answer_text, spans = None, ner_label = nl,
                   kb_id = kb, wikidata_label = wl,
                   aliases = al, wikidata_types = wt,
                   wikipedia_page = wp, popularity = pop,
                   answer_type = at\<rparr>"
    let ?h2 = "snd (new_answer h1 ?a)"
    let ?sa = "fst (new_answer h1 ?a)"
    have f2: "examples ?h2 = examples h1" "\<forall>a < next_answer h1. answers ?h2 a = answers h1 a"
      by (simp_all add: new_answer_def)
    obtain r3 h3 where ap: "apply_substitution ?h2 sub_ex ?sa ex new_id flag = (r3, h3)"
      by (cases "apply_substitution ?h2 sub_ex ?sa ex new_id flag") auto
    from run dc Inr ap have "h' = h3"
      by (auto simp: create_new_example_def split: prod.splits sum.splits)
    with apply_substitution_frame [OF ap] f2 f1 fresh show ?thesis
      by auto
  qed
  with ex have same: "examples h' ex = examples h ex" by simp
  with frame golds show ?thesis by simp
qed

theorem create_new_example_preserves_original_witness:
  "(0::nat) < next_example cities_heap
   \<and> gold_answers (examples cities_heap 0) = [0, 1]
   \<and> next_answer cities_heap = 2
   \<and> fst (create_new_example cities_heap 0 ''corpus-sub-0'' ''Rome'' None None None None
            None None None None False) = Inr 1
   \<and> examples (snd (create_new_example cities_heap 0 ''corpus-sub-0'' ''Rome'' None None None
                       None None None None None False)) 0 = examples cities_heap 0
   \<and> context' (examples (snd (create_new_example cities_heap 0 ''corpus-sub-0'' ''Rome'' None
                       None None None None None None None False)) 0) = ''Paris and London''
   \<and> answers (snd (create_new_example cities_heap 0 ''corpus-sub-0'' ''Rome'' None None None
                       None None None None None False)) 1 = answers cities_heap 1"
proof -
  let ?run = "create_new_example cities_heap 0 ''corpus-sub-0'' ''Rome'' None None None None
            None None None None False"
  have a1: "(0::nat) < next_example cities_heap" by code_simp
  have g: "gold_answers (examples cities_heap 0) = [0, 1]" "next_answer cities_heap = 2"
    by code_simp+
  then have a2: "\<forall>a \<in> set (gold_answers (examples cities_heap 0)). a < next_answer cities_heap"
    by simp
  have r: "fst ?run = Inr 1" by code_simp
  have c: "context' (examples cities_heap 0) = ''Paris and London''" by code_simp
  have n: "(0::nat) < next_example cities_heap" "(1::nat) < next_answer cities_heap"
    by code_simp+
  have run: "?run = (fst ?run, snd ?run)" by simp
  note main = create_new_example_preserves_original [OF run a1 a2]
  from main n have "examples (snd ?run) 0 = examples cities_heap 0"
    "answers (snd ?run) 1 = answers cities_heap 1" by blast+
  with a1 g r c show ?thesis by simp
qed

section \<open>Substitution without an answer in the context\<close>

lemma gold_answer_objs_set_example_uid:
  "gold_answer_objs (set_example h self ((examples h self)\<lparr>uid := u\<rparr>)) self = gold_answer_objs h self"
  by (simp add: gold_answer_objs_def set_example_def)

text \<open>
  Claim C3, as amended. For every example in which no gold answer has non-empty spans,
  \<open>apply_substitution\<close> with \<open>replace_every\<close> false does not return normally: it raises
  Python's \<open>IndexError\<close>, from indexing the empty list of the answers found in the
  context.
\<close>

theorem apply_substitution_no_answer_in_context:
  assumes "\<forall>a \<in> set (gold_answer_objs h self). \<not> is_answer_in_context a"
  shows "fst (apply_substitution h self sub_answer original sub_type False) = Inl IndexError"
proof -
  from assms have "filter is_answer_in_context (gold_answer_objs h self) = []"
    by (simp add: filter_empty_conv)
  then show ?thesis
    by (simp add: apply_substitution_def update_context_with_substitution_def
        replace_answers_of_def gold_answer_objs_set_example_uid Let_def)
qed

theorem apply_substitution_no_answer_in_context_witness:
  "gold_answers (examples berlin_heap 0) = [0]
   \<and> spans (answers berlin_heap 0) = Some []
   \<and> \<not> is_answer_in_context (answers berlin_heap 0)
   \<and> fst (apply_substitution berlin_heap 0 1 0 ''corpus-sub-0'' False) = Inl IndexError"
proof -
  have g: "gold_answers (examples berlin_heap 0) = [0]"
    and sp: "spans (answers berlin_heap 0) = Some []"
    and n: "\<not> is_answer_in_context (answers berlin_heap 0)"
    by code_simp+
  from g n have h: "\<forall>a \<in> set (gold_answer_objs berlin_heap 0). \<not> is_answer_in_context a"
    by (simp add: gold_answer_objs_def)
  from apply_substitution_no_answer_in_context [OF h] g sp n show ?thesis by simp
qed

text \<open>
  Claim C3 as stated fails: on an example whose only gold answer has empty spans the
  result is not the declared failure \<open>NoAnswerInContext\<close>.
\<close>

theorem apply_substitution_not_declared_failure:
  "filter is_answer_in_context (gold_answer_objs berlin_heap 0) = []
   \<and> fst (apply_substitution berlin_heap 0 1 0 ''corpus-sub-0'' False) \<noteq> Inl NoAnswerInContext"
  by code_simp

section \<open>Termination of the rejection sampling\<close>

lemma resample_step:
  "must_redraw G sk \<Longrightarrow> K \<noteq> [] \<Longrightarrow>
     resample rng i G K sk = resample rng (Suc i) G K (Some (draw rng K i))"
  by (subst resample.simps) (simp add: random_choice_def draw_def)

lemma resample_stop:
  "\<not> must_redraw G sk \<Longrightarrow> resample rng i G K sk = Some (Inr sk)"
  by (subst resample.simps) simp

lemma draw_mem: "K \<noteq> [] \<Longrightarrow> draw rng K j \<in> set K"
  by (simp add: draw_def)

lemma resample_returns:
  assumes "K \<noteq> []" and "\<not> must_redraw G (Some (draw rng K j))"
  shows "i \<le> j \<Longrightarrow> must_redraw G sk \<Longrightarrow>
     \<exists>k. resample rng i G K sk = Some (Inr (Some k)) \<and> k \<in> set K \<and> \<not> must_redraw G (Some k)"
proof (induction "j - i" arbitrary: i sk)
  case 0
  then have "i = j" by simp
  with assms 0 show ?case
    by (auto simp: resample_step resample_stop draw_mem)
next
  case (Suc d)
  show ?case
  proof (cases "must_redraw G (Some (draw rng K i))")
    case True
    from Suc have "d = j - Suc i" "Suc i \<le> j" by simp_all
    from Suc.hyps(1) [OF this True] show ?thesis
      using Suc.prems assms(1) by (simp add: resample_step)
  next
    case False
    with Suc.prems assms(1) show ?thesis
      by (auto simp: resample_step resample_stop draw_mem)
  qed
qed

lemma resample_diverges_aux:
  assumes "resample rng i G K sk = Some r"
  shows "\<not> (K \<noteq> [] \<and> (\<forall>j. must_redraw G (Some (draw rng K j))) \<and> must_redraw G sk)"
proof (rule resample.raw_induct
    [where P = "\<lambda>rng i G K sk r.
        \<not> (K \<noteq> [] \<and> (\<forall>j. must_redraw G (Some (draw rng K j))) \<and> must_redraw G sk)",
      OF _ assms])
  fix loop :: "(nat \<Rightarrow> nat) \<Rightarrow> nat \<Rightarrow> string list \<Rightarrow> string list \<Rightarrow> string option \<Rightarrow>
     (error + string option) option"
  fix rng i G K sk r
  assume IH: "\<And>rng i G K sk y. loop rng i G K sk = Some y \<Longrightarrow>
        \<not> (K \<noteq> [] \<and> (\<forall>j. must_redraw G (Some (draw rng K j))) \<and> must_redraw G sk)"
  assume step: "(if must_redraw G sk then
        (case random_choice (rng i) K of
           Inl err \<Rightarrow> Some (Inl err)
         | Inr k \<Rightarrow> loop rng (Suc i) G K (Some k))
      else Some (Inr sk)) = Some r"
  show "\<not> (K \<noteq> [] \<and> (\<forall>j. must_redraw G (Some (draw rng K j))) \<and> must_redraw G sk)"
  proof
    assume a: "K \<noteq> [] \<and> (\<forall>j. must_redraw G (Some (draw rng K j))) \<and> must_redraw G sk"
    with step have "loop rng (Suc i) G K (Some (draw rng K i)) = Some r"
      by (simp add: random_choice_def draw_def)
    then have "\<not> (K \<noteq> [] \<and> (\<forall>j. must_redraw G (Some (draw rng K j))) \<and>
                must_redraw G (Some (draw rng K i)))"
      by (rule IH)
    with a show False by blast
  qed
qed

lemma resample_diverges:
  "K \<noteq> [] \<Longrightarrow> (\<forall>j. must_redraw G (Some (draw rng K j))) \<Longrightarrow> must_redraw G sk \<Longrightarrow>
     resample rng i G K sk = None"
  using resample_diverges_aux by (cases "resample rng i G K sk") blast+


lemma must_redraw_excluded:
  "must_redraw (map (\<lambda>ga. normalize_text (text' ga)) (gold_answer_objs h ex)) (Some k)
     = excluded h ex k"
  by (simp add: must_redraw_def excluded_def)

lemma select_returns:
  assumes ne: "sample_set \<noteq> []"
    and acc: "\<not> excluded h ex (draw rng (map fst sample_set) j)"
  shows "\<exists>k a. select_random_non_identical_answer rng h ex sample_set = Some (Inr a)
            \<and> map_of sample_set k = Some a \<and> \<not> excluded h ex k"
proof -
  let ?G = "map (\<lambda>ga. normalize_text (text' ga)) (gold_answer_objs h ex)"
  let ?K = "map fst sample_set"
  have K: "?K \<noteq> []" using ne by simp
  have "\<not> must_redraw ?G (Some (draw rng ?K j))" using acc by (simp add: must_redraw_excluded)
  from resample_returns [OF K this, of 0 None]
  obtain k where k: "resample rng 0 ?G ?K None = Some (Inr (Some k))" "k \<in> set ?K"
    "\<not> must_redraw ?G (Some k)"
    by (auto simp: must_redraw_def)
  from k(2) obtain a where a: "map_of sample_set k = Some a"
    by (metis map_of_eq_None_iff not_Some_eq set_map)
  from k(1) a have "select_random_non_identical_answer rng h ex sample_set = Some (Inr a)"
    by (simp add: select_random_non_identical_answer_def)
  with a k(3) show ?thesis by (auto simp: must_redraw_excluded)
qed

lemma select_diverges:
  assumes ne: "sample_set \<noteq> []"
    and all: "\<forall>j. excluded h ex (draw rng (map fst sample_set) j)"
  shows "select_random_non_identical_answer rng h ex sample_set = None"
proof -
  let ?G = "map (\<lambda>ga. normalize_text (text' ga)) (gold_answer_objs h ex)"
  let ?K = "map fst sample_set"
  have K: "?K \<noteq> []" using ne by simp
  have "\<forall>j. must_redraw ?G (Some (draw rng ?K j))" using all by (simp add: must_redraw_excluded)
  from resample_diverges [OF K this, of None 0]
  have "resample rng 0 ?G ?K None = None" by (simp add: must_redraw_def)
  then show ?thesis by (simp add: select_random_non_identical_answer_def)
qed

text \<open>
  Claim C4, as amended. For every example, every non-empty candidate pool and every
  sequence of random draws: if some draw hits a candidate that is not excluded (its text
  is non-empty and its normalized text differs from every gold answer's normalized
  text), the selection returns a candidate of the pool that is not excluded; if every
  draw hits an excluded candidate, and in particular if every member of the pool is
  excluded, the selection does not return: the loop runs forever and no error is
  raised.
\<close>

theorem select_random_non_identical_answer_outcomes:
  assumes "sample_set \<noteq> []"
  shows "((\<exists>j. \<not> excluded h ex (draw rng (map fst sample_set) j)) \<longrightarrow>
            (\<exists>k a. select_random_non_identical_answer rng h ex sample_set = Some (Inr a)
               \<and> map_of sample_set k = Some a \<and> \<not> excluded h ex k))
       \<and> ((\<forall>j. excluded h ex (draw rng (map fst sample_set) j)) \<longrightarrow>
            select_random_non_identical_answer rng h ex sample_set = None)
       \<and> ((\<forall>k \<in> set (map fst sample_set). excluded h ex k) \<longrightarrow>
            select_random_non_identical_answer rng h ex sample_set = None)"
proof (intro conjI impI)
  assume "\<exists>j. \<not> excluded h ex (draw rng (map fst sample_set) j)"
  then obtain j where "\<not> excluded h ex (draw rng (map fst sample_set) j)" ..
  from select_returns [OF assms this]
  show "\<exists>k a. select_random_non_identical_answer rng h ex sample_set = Some (Inr a)
               \<and> map_of sample_set k = Some a \<and> \<not> excluded h ex k" .
next
  assume "\<forall>j. excluded h ex (draw rng (map fst sample_set) j)"
  from select_diverges [OF assms this]
  show "select_random_non_identical_answer rng h ex sample_set = None" .
next
  assume all: "\<forall>k \<in> set (map fst sample_set). excluded h ex k"
  have "map fst sample_set \<noteq> []" using assms by simp
  then have "\<forall>j. draw rng (map fst sample_set) j \<in> set (map fst sample_set)"
    using draw_mem by blast
  with all have "\<forall>j. excluded h ex (draw rng (map fst sample_set) j)" by blast
  from select_diverges [OF assms this]
  show "select_random_non_identical_answer rng h ex sample_set = None" .
qed

theorem select_random_non_identical_answer_outcomes_witness:
  "[(''Berlin'', 0::nat), (''Rome'', 1)] \<noteq> []
   \<and> \<not> excluded berlin_heap 0 (draw counting_draws (map fst [(''Berlin'', 0::nat), (''Rome'', 1)]) 1)
   \<and> select_random_non_identical_answer counting_draws berlin_heap 0
        [(''Berlin'', 0), (''Rome'', 1)] = Some (Inr 1)"
proof -
  let ?pool = "[(''Berlin'', 0::nat), (''Rome'', 1)]"
  have ne: "?pool \<noteq> []" by simp
  have acc: "\<not> excluded berlin_heap 0 (draw counting_draws (map fst ?pool) 1)"
    by code_simp
  have exc: "excluded berlin_heap 0 ''Berlin''" by code_simp
  from select_random_non_identical_answer_outcomes [OF ne, of berlin_heap 0 counting_draws] acc
  obtain k a where
    r: "select_random_non_identical_answer counting_draws berlin_heap 0 ?pool = Some (Inr a)"
    and m: "map_of ?pool k = Some a" and k: "\<not> excluded berlin_heap 0 k"
    by blast
  from m k exc have "a = 1" by (auto split: if_splits)
  with r ne acc show ?thesis by simp
qed

text \<open>
  Claim C4 as stated fails: with a pool that holds only the example's own gold answers
  the selection does not fail with \<open>NoValidCandidate\<close>; it never returns.
\<close>

theorem select_random_non_identical_answer_loops:
  "[(''Paris'', 0::nat), (''London'', 1)] \<noteq> []
   \<and> select_random_non_identical_answer counting_draws cities_heap 0
        [(''Paris'', 0), (''London'', 1)] = None
   \<and> select_random_non_identical_answer counting_draws cities_heap 0
        [(''Paris'', 0), (''London'', 1)] \<noteq> Some (Inl NoValidCandidate)"
proof -
  let ?pool = "[(''Paris'', 0::nat), (''London'', 1)]"
  have ne: "?pool \<noteq> []" by simp
  have all: "\<forall>k \<in> set (map fst ?pool). excluded cities_heap 0 k" by code_simp
  have "\<forall>j. draw counting_draws (map fst ?pool) j \<in> set (map fst ?pool)"
    using draw_mem [of "map fst ?pool"] by simp
  with all have "\<forall>j. excluded cities_heap 0 (draw counting_draws (map fst ?pool) j)" by blast
  from select_diverges [OF ne this] show ?thesis by simp
qed

section \<open>Behaviour of the substitution on the sample stores\<close>

text \<open>
  When some gold answer is found in the context, the flag \<open>replace_every\<close> has no
  effect on the rewritten passage.
\<close>

lemma update_context_ignores_flag:
  assumes "filter is_answer_in_context (gold_answer_objs h self) \<noteq> []"
  shows "update_context_with_substitution h self sub_answer False
           = update_context_with_substitution h self sub_answer True"
  using assms
  by (cases "filter is_answer_in_context (gold_answer_objs h self)")
     (simp_all add: update_context_with_substitution_def replace_answers_of_def Let_def)

text \<open>
  Claim C1 at a concrete example. The passage is \<open>Paris and London\<close>, the gold answers
  are \<open>Paris\<close> (the first one found in the context) and \<open>London\<close>, the substitute is
  \<open>Rome\<close> and \<open>replace_every\<close> is false: the derived example's passage is
  \<open>Rome and Rome\<close>, so the occurrence of the second gold answer is replaced too. The
  two matched substrings give this passage in either order of replacement.
\<close>

theorem create_new_example_replaces_every_answer:
  "is_answer_in_context (answers cities_heap 0)
   \<and> text' (answers cities_heap 0) = ''Paris''
   \<and> text' (answers cities_heap 1) = ''London''
   \<and> context' (examples cities_heap 0) = ''Paris and London''
   \<and> fst (create_new_example cities_heap 0 ''corpus-sub-0'' ''Rome'' None None None None None
            None None None False) = Inr 1
   \<and> context' (examples (snd (create_new_example cities_heap 0 ''corpus-sub-0'' ''Rome'' None
                                 None None None None None None None False)) 1)
       = ''Rome and Rome''
   \<and> py_replace (py_replace ''Paris and London'' ''Paris'' ''Rome'') ''London'' ''Rome''
       = ''Rome and Rome''
   \<and> py_replace (py_replace ''Paris and London'' ''London'' ''Rome'') ''Paris'' ''Rome''
       = ''Rome and Rome''"
  by code_simp

text \<open>
  Claim C2 at the specification's scenario for alias substitution, with \<open>max_aliases\<close>
  1: one derived example, with uid \<open>alias-sub-0_q1\<close>, passage
  \<open>Obama was the 44th President.\<close> and the single gold answer \<open>Obama\<close>; locating
  \<open>Obama\<close> in the new passage gives \<open>[(0, 5)]\<close>, and the spans of the gold answer are
  \<open>None\<close>.
\<close>

theorem alias_substitution_leaves_spans_unset:
  "fst (alias_substitution_fn obama_heap [0] False 1 ''NONNUMERIC'') = Inr [1]
   \<and> (let h' = snd (alias_substitution_fn obama_heap [0] False 1 ''NONNUMERIC'') in
        uid (examples h' 1) = ''alias-sub-0_q1''
        \<and> context' (examples h' 1) = ''Obama was the 44th President.''
        \<and> map (\<lambda>a. text' (answers h' a)) (gold_answers (examples h' 1)) = [''Obama'']
        \<and> find_answer_in_context ''Obama'' (context' (examples h' 1)) = [(0, 5)]
        \<and> map (\<lambda>a. spans (answers h' a)) (gold_answers (examples h' 1)) = [None])"
  by code_simp

text \<open>
  Claim C5 at a concrete dataset: one example whose answer type is \<open>DATE\<close>, with one
  alias. Alias substitution with the category \<open>NONNUMERIC\<close> derives an example from it;
  the guard of the loop holds for this category whatever the example's answer type is,
  \<open>DATE\<close>, \<open>NUMERIC\<close> or absent.
\<close>

theorem alias_substitution_nonnumeric_takes_date:
  "get_example_answer_type year_heap 0 = Some ''DATE''
   \<and> fst (alias_substitution_fn year_heap [0] False 1 ''NONNUMERIC'') = Inr [1]
   \<and> (let h' = snd (alias_substitution_fn year_heap [0] False 1 ''NONNUMERIC'') in
        uid (examples h' 1) = ''alias-sub-0_q5''
        \<and> context' (examples h' 1) = ''Released in MCMXCIX.''
        \<and> original_example (examples h' 1) = Some 0)
   \<and> alias_category_matches ''NONNUMERIC'' (Some ''DATE'') = Inr True
   \<and> alias_category_matches ''NONNUMERIC'' (Some ''NUMERIC'') = Inr True
   \<and> alias_category_matches ''NONNUMERIC'' None = Inr True"
  by code_simp

text \<open>
  Claim C8 at a concrete entity store: two people of different popularity and
  \<open>num_bins\<close> 2. The bin size is \<open>2 div 2 + 1 = 2\<close>, and the result is one bin that
  holds both entities.
\<close>

theorem bin_wikidata_entities_one_bin_for_two:
  "surviving_entities two_people 10 = two_people
   \<and> bin_wikidata_entities_by_popularity two_people 2 10
       = Inr [[two_people ! 1, two_people ! 0]]"
  by code_simp

section \<open>Properties of the popularity binning\<close>

lemma chunks_Nil [simp]: "chunks n [] = []"
  by (simp add: chunks.simps)

lemma chunks_unfold:
  "0 < n \<Longrightarrow> xs \<noteq> [] \<Longrightarrow> chunks n xs = take n xs # chunks n (drop n xs)"
  by (subst chunks.simps) simp

lemma concat_chunks: "0 < n \<Longrightarrow> concat (chunks n xs) = xs"
proof (induction n xs rule: chunks.induct)
  case (1 n xs)
  show ?case
  proof (cases "xs = []")
    case True
    then show ?thesis by simp
  next
    case False
    with 1 show ?thesis by (simp add: chunks_unfold)
  qed
qed

lemma chunks_sizes:
  "0 < n \<Longrightarrow> c \<in> set (chunks n xs) \<Longrightarrow> c \<noteq> [] \<and> length c \<le> n"
proof (induction n xs rule: chunks.induct)
  case (1 n xs)
  show ?case
  proof (cases "xs = []")
    case True
    with 1(3) show ?thesis by simp
  next
    case False
    with 1 show ?thesis by (auto simp: chunks_unfold)
  qed
qed

lemma chunks_full_but_last:
  "0 < n \<Longrightarrow> Suc i < length (chunks n xs) \<Longrightarrow> length (chunks n xs ! i) = n"
proof (induction n xs arbitrary: i rule: chunks.induct)
  case (1 n xs)
  show ?case
  proof (cases "xs = []")
    case True
    with 1(3) show ?thesis by simp
  next
    case False
    note ne = False
    have u: "chunks n xs = take n xs # chunks n (drop n xs)"
      using 1(2) ne by (rule chunks_unfold)
    show ?thesis
    proof (cases i)
      case 0
      from 1(3) u have "chunks n (drop n xs) \<noteq> []" by auto
      then have "drop n xs \<noteq> []" by auto
      then have "n < length xs" by simp
      with 0 u show ?thesis by simp
    next
      case (Suc j)
      with 1(3) u have "Suc j < length (chunks n (drop n xs))" by simp
      with 1(1) [of j] 1(2) ne have "length (chunks n (drop n xs) ! j) = n" by simp
      with Suc u show ?thesis by simp
    qed
  qed
qed

lemma length_chunks_le:
  "0 < n \<Longrightarrow> length xs < k * n \<Longrightarrow> length (chunks n xs) \<le> k"
proof (induction n xs arbitrary: k rule: chunks.induct)
  case (1 n xs)
  show ?case
  proof (cases "xs = []")
    case True
    then show ?thesis by simp
  next
    case False
    note ne = False
    have u: "chunks n xs = take n xs # chunks n (drop n xs)"
      using 1(2) ne by (rule chunks_unfold)
    from 1(3) obtain k' where k: "k = Suc k'" by (cases k) auto
    show ?thesis
    proof (cases "drop n xs = []")
      case True
      with u k show ?thesis by simp
    next
      case False
      then have "n < length xs" by simp
      with 1(3) k have "length (drop n xs) < k' * n" by simp
      with 1(1) [of k'] 1(2) ne have "length (chunks n (drop n xs)) \<le> k'" by simp
      with u k show ?thesis by simp
    qed
  qed
qed

lemma subseq_keeps_distinct: "subseq xs ys \<Longrightarrow> distinct ys \<Longrightarrow> distinct xs"
proof (induction rule: list_emb.induct)
  case (list_emb_Nil ys)
  then show ?case by simp
next
  case (list_emb_Cons xs ys y)
  then show ?case by simp
next
  case (list_emb_Cons2 x y xs ys)
  then have "x \<notin> set xs" by (auto elim: list_emb_set)
  with list_emb_Cons2 show ?case by simp
qed

lemma cap_per_pop_subseq: "subseq (cap_per_pop m cnt xs) xs"
proof (induction xs arbitrary: cnt)
  case Nil
  then show ?case by simp
next
  case (Cons x xs)
  obtain kb info where x: "x = (kb, info)" by (cases x)
  let ?cnt = "cnt(entity_popularity info := cnt (entity_popularity info) + 1)"
  have ih: "subseq (cap_per_pop m ?cnt xs) xs" by (rule Cons.IH)
  show ?case
  proof (cases "m \<le> cnt (entity_popularity info)")
    case True
    then have "cap_per_pop m cnt (x # xs) = cap_per_pop m ?cnt xs" by (simp add: x Let_def)
    with ih show ?thesis by (simp add: list_emb_Cons)
  next
    case False
    then have "cap_per_pop m cnt (x # xs) = x # cap_per_pop m ?cnt xs" by (simp add: x Let_def)
    with ih show ?thesis by simp
  qed
qed

lemma surviving_entities_subseq: "subseq (surviving_entities info m) info"
  unfolding surviving_entities_def
  by (rule subseq_order.trans [OF cap_per_pop_subseq]) simp

text \<open>
  What the binning does for a positive \<open>num_bins\<close>: the bins are the surviving entities
  in ascending order of popularity, cut into consecutive chunks; no bin is empty, every
  bin but the last has \<open>count div num_bins + 1\<close> entities and the last has at most that
  many; there are at most \<open>num_bins\<close> bins; and the bins share no entity when the keys of
  the store are distinct.
\<close>

lemma bin_wikidata_entities_partition:
  assumes "1 \<le> num_bins"
  shows "\<exists>bins. bin_wikidata_entities_by_popularity wikidata_info num_bins max_ents_per_pop
                  = Inr bins
     \<and> concat bins = sort_key (\<lambda>(kb, info). entity_popularity info)
                        (surviving_entities wikidata_info max_ents_per_pop)
     \<and> sorted (map (\<lambda>(kb, info). entity_popularity info) (concat bins))
     \<and> (\<forall>b \<in> set bins. b \<noteq> [] \<and>
           int (length b) \<le> int (length (concat bins)) div num_bins + 1)
     \<and> (\<forall>i. Suc i < length bins \<longrightarrow>
           int (length (bins ! i)) = int (length (concat bins)) div num_bins + 1)
     \<and> int (length bins) \<le> num_bins
     \<and> (distinct (map fst wikidata_info) \<longrightarrow> distinct (map fst (concat bins)))"
proof -
  let ?S = "sort_key (\<lambda>(kb, info). entity_popularity info)
                        (surviving_entities wikidata_info max_ents_per_pop)"
  let ?b = "int (length ?S) div num_bins + 1"
  have b: "0 < ?b" using assms by (simp add: pos_imp_zdiv_nonneg_iff add.commute add_pos_nonneg)
  then have nb: "0 < nat ?b" by simp
  have r: "bin_wikidata_entities_by_popularity wikidata_info num_bins max_ents_per_pop
             = Inr (chunks (nat ?b) ?S)"
    using assms b by (simp add: bin_wikidata_entities_by_popularity_def Let_def)
  have c: "concat (chunks (nat ?b) ?S) = ?S" using nb by (rule concat_chunks)
  have s: "sorted (map (\<lambda>(kb, info). entity_popularity info) ?S)" by simp
  have sz: "\<forall>c \<in> set (chunks (nat ?b) ?S). c \<noteq> [] \<and> int (length c) \<le> ?b"
  proof
    fix c
    assume "c \<in> set (chunks (nat ?b) ?S)"
    from chunks_sizes [OF nb this] have "c \<noteq> []" "length c \<le> nat ?b" by simp_all
    with b show "c \<noteq> [] \<and> int (length c) \<le> ?b" by linarith
  qed
  have full: "\<forall>i. Suc i < length (chunks (nat ?b) ?S) \<longrightarrow>
      int (length (chunks (nat ?b) ?S ! i)) = ?b"
  proof (intro allI impI)
    fix i
    assume "Suc i < length (chunks (nat ?b) ?S)"
    from chunks_full_but_last [OF nb this] b
    show "int (length (chunks (nat ?b) ?S ! i)) = ?b" by linarith
  qed
  have "int (length ?S) < num_bins * ?b"
  proof -
    have "int (length ?S) = num_bins * (int (length ?S) div num_bins) + int (length ?S) mod num_bins"
      by simp
    moreover have "int (length ?S) mod num_bins < num_bins" using assms by simp
    ultimately have "int (length ?S) < num_bins * (int (length ?S) div num_bins) + num_bins"
      by linarith
    then show ?thesis by (simp only: distrib_left mult_1_right)
  qed
  then have "length ?S < nat (num_bins * ?b)"
    by (simp only: zless_nat_eq_int_zless)
  moreover have "nat (num_bins * ?b) = nat num_bins * nat ?b"
    using assms by (simp add: nat_mult_distrib)
  ultimately have "length ?S < nat num_bins * nat ?b" by simp
  from length_chunks_le [OF nb this] have cnt: "int (length (chunks (nat ?b) ?S)) \<le> num_bins"
    using assms by linarith
  have d: "distinct (map fst wikidata_info) \<longrightarrow> distinct (map fst ?S)"
  proof
    assume "distinct (map fst wikidata_info)"
    moreover have "subseq (map fst (surviving_entities wikidata_info max_ents_per_pop))
                          (map fst wikidata_info)"
      by (rule subseq_map [OF surviving_entities_subseq])
    ultimately have "distinct (map fst (surviving_entities wikidata_info max_ents_per_pop))"
      by (rule subseq_keeps_distinct [rotated])
    then show "distinct (map fst ?S)" by (simp add: distinct_map)
  qed
  show ?thesis
    by (rule exI [of _ "chunks (nat ?b) ?S"], unfold c, intro conjI)
       (rule r refl s sz full cnt d)+
qed

end
